theory Spec2Isabelle
  imports Complex_Main
begin

section \<open>JavaScript numbers\<close>

text \<open>
  The engine in \<^verbatim>\<open>src/utils/gameUtils.js\<close> computes with JavaScript numbers. A number is
  modelled as an exact real or one of the three special values of IEEE arithmetic; rounding
  and overflow of finite values are not modelled, and there is a single zero (the sign of a
  zero is taken as positive where a division by it decides the sign of an infinity).
\<close>

datatype jsnum = Num real | PosInfinity | NegInfinity | NaN

fun sign_of :: "jsnum \<Rightarrow> real" where
  "sign_of (Num a) = sgn a"
| "sign_of PosInfinity = 1"
| "sign_of NegInfinity = - 1"
| "sign_of NaN = 0"

definition signed_infinity :: "real \<Rightarrow> jsnum" where
  "signed_infinity s = (if 0 < s then PosInfinity else if s < 0 then NegInfinity else NaN)"

instantiation jsnum :: "{plus,minus,uminus,times,inverse,ord}"
begin

fun plus_jsnum :: "jsnum \<Rightarrow> jsnum \<Rightarrow> jsnum" where
  "plus_jsnum (Num a) (Num b) = Num (a + b)"
| "plus_jsnum NaN _ = NaN"
| "plus_jsnum _ NaN = NaN"
| "plus_jsnum PosInfinity NegInfinity = NaN"
| "plus_jsnum NegInfinity PosInfinity = NaN"
| "plus_jsnum PosInfinity _ = PosInfinity"
| "plus_jsnum _ PosInfinity = PosInfinity"
| "plus_jsnum NegInfinity _ = NegInfinity"
| "plus_jsnum _ NegInfinity = NegInfinity"

fun uminus_jsnum :: "jsnum \<Rightarrow> jsnum" where
  "uminus_jsnum (Num a) = Num (- a)"
| "uminus_jsnum PosInfinity = NegInfinity"
| "uminus_jsnum NegInfinity = PosInfinity"
| "uminus_jsnum NaN = NaN"

definition minus_jsnum :: "jsnum \<Rightarrow> jsnum \<Rightarrow> jsnum" where
  "minus_jsnum a b = a + (- b)"

fun times_jsnum :: "jsnum \<Rightarrow> jsnum \<Rightarrow> jsnum" where
  "times_jsnum (Num a) (Num b) = Num (a * b)"
| "times_jsnum a b = signed_infinity (sign_of a * sign_of b)"

fun divide_jsnum :: "jsnum \<Rightarrow> jsnum \<Rightarrow> jsnum" where
  "divide_jsnum (Num a) (Num b) = (if b = 0 then signed_infinity (sgn a) else Num (a / b))"
| "divide_jsnum NaN _ = NaN"
| "divide_jsnum _ NaN = NaN"
| "divide_jsnum (Num a) _ = Num 0"
| "divide_jsnum a (Num b) = signed_infinity (sign_of a * (if b < 0 then - 1 else 1))"
| "divide_jsnum _ _ = NaN"

definition inverse_jsnum :: "jsnum \<Rightarrow> jsnum" where
  "inverse_jsnum a = divide (Num 1) a"

text \<open>The comparisons \<^verbatim>\<open><\<close> and \<^verbatim>\<open><=\<close>: false as soon as one side is NaN.\<close>

fun less_jsnum :: "jsnum \<Rightarrow> jsnum \<Rightarrow> bool" where
  "less_jsnum (Num a) (Num b) = (a < b)"
| "less_jsnum NaN _ = False"
| "less_jsnum _ NaN = False"
| "less_jsnum _ NegInfinity = False"
| "less_jsnum PosInfinity _ = False"
| "less_jsnum _ _ = True"

fun less_eq_jsnum :: "jsnum \<Rightarrow> jsnum \<Rightarrow> bool" where
  "less_eq_jsnum (Num a) (Num b) = (a \<le> b)"
| "less_eq_jsnum NaN _ = False"
| "less_eq_jsnum _ NaN = False"
| "less_eq_jsnum NegInfinity _ = True"
| "less_eq_jsnum _ PosInfinity = True"
| "less_eq_jsnum _ _ = False"

instance ..

end

subsection \<open>The \<^verbatim>\<open>Math\<close> functions the engine calls\<close>

text \<open>
  On finite arguments the functions are those of real analysis: as for the arithmetic, their
  rounding is not modelled (in the engine \<^verbatim>\<open>Math.cos\<close> of the double nearest to
  \<open>pi / 2\<close> is a small number, not 0).
\<close>

fun Math_max :: "jsnum \<Rightarrow> jsnum \<Rightarrow> jsnum" where
  "Math_max (Num a) (Num b) = Num (max a b)"
| "Math_max NaN _ = NaN"
| "Math_max _ NaN = NaN"
| "Math_max PosInfinity _ = PosInfinity"
| "Math_max _ PosInfinity = PosInfinity"
| "Math_max NegInfinity b = b"
| "Math_max a NegInfinity = a"

fun Math_min :: "jsnum \<Rightarrow> jsnum \<Rightarrow> jsnum" where
  "Math_min (Num a) (Num b) = Num (min a b)"
| "Math_min NaN _ = NaN"
| "Math_min _ NaN = NaN"
| "Math_min NegInfinity _ = NegInfinity"
| "Math_min _ NegInfinity = NegInfinity"
| "Math_min PosInfinity b = b"
| "Math_min a PosInfinity = a"

fun Math_floor :: "jsnum \<Rightarrow> jsnum" where
  "Math_floor (Num a) = Num (of_int \<lfloor>a\<rfloor>)"
| "Math_floor a = a"

fun Math_abs :: "jsnum \<Rightarrow> jsnum" where
  "Math_abs (Num a) = Num \<bar>a\<bar>"
| "Math_abs NaN = NaN"
| "Math_abs _ = PosInfinity"

fun Math_sqrt :: "jsnum \<Rightarrow> jsnum" where
  "Math_sqrt (Num a) = (if a < 0 then NaN else Num (sqrt a))"
| "Math_sqrt PosInfinity = PosInfinity"
| "Math_sqrt _ = NaN"

fun Math_log :: "jsnum \<Rightarrow> jsnum" where
  "Math_log (Num a) = (if a < 0 then NaN else if a = 0 then NegInfinity else Num (ln a))"
| "Math_log PosInfinity = PosInfinity"
| "Math_log _ = NaN"

fun Math_exp :: "jsnum \<Rightarrow> jsnum" where
  "Math_exp (Num a) = Num (exp a)"
| "Math_exp PosInfinity = PosInfinity"
| "Math_exp NegInfinity = Num 0"
| "Math_exp NaN = NaN"

fun Math_cos :: "jsnum \<Rightarrow> jsnum" where
  "Math_cos (Num a) = Num (cos a)"
| "Math_cos _ = NaN"

fun Math_sin :: "jsnum \<Rightarrow> jsnum" where
  "Math_sin (Num a) = Num (sin a)"
| "Math_sin _ = NaN"

text \<open>\<^verbatim>\<open>Math.pow(v, 2)\<close>, the only exponent the engine uses.\<close>

definition Math_pow2 :: "jsnum \<Rightarrow> jsnum" where
  "Math_pow2 v = v * v"

definition Math_PI :: jsnum where
  "Math_PI = Num pi"

text \<open>
  \<^verbatim>\<open>Math.random()\<close> returns a finite number in \<open>[0, 1)\<close>. The successive draws of a call
  are a parameter \<open>rnd\<close> of the model: \<open>rnd k\<close> is the draw number \<open>k\<close>.
\<close>

type_synonym draws = "nat \<Rightarrow> real"

text \<open>The draws that are all the same number, for the concrete runs below.\<close>

definition constant_draws :: "real \<Rightarrow> draws" where
  "constant_draws u k = u"

section \<open>The standard-normal generator\<close>

text \<open>
  \<^verbatim>\<open>boxMullerTransform\<close>: \<open>u1\<close> and \<open>u2\<close> are its two draws, in that order. The source
  takes the logarithm of \<open>u1\<close> as it comes.
\<close>

definition boxMullerTransform :: "real \<Rightarrow> real \<Rightarrow> jsnum" where
  "boxMullerTransform u1 u2 =
     (let z0 = Math_sqrt (Num (- 2) * Math_log (Num u1)) * Math_cos (Num 2 * Math_PI * Num u2)
      in z0)"

section \<open>Arrays\<close>

datatype jserror = TypeError | RangeError

text \<open>
  An index expression evaluated to a number selects an element only when it is a
  non-negative integer below the length; anything else reads \<^verbatim>\<open>undefined\<close>.
\<close>

definition array_index :: "jsnum \<Rightarrow> nat option" where
  "array_index i =
     (case i of
        Num r \<Rightarrow> (if 0 \<le> r \<and> r = of_int \<lfloor>r\<rfloor> then Some (nat \<lfloor>r\<rfloor>) else None)
      | _ \<Rightarrow> None)"

text \<open>\<^verbatim>\<open>grid[i]\<close>: \<open>None\<close> is \<^verbatim>\<open>undefined\<close>, and indexing it further throws a TypeError.\<close>

definition row_at :: "'a list \<Rightarrow> jsnum \<Rightarrow> 'a option" where
  "row_at xs i =
     (case array_index i of
        Some n \<Rightarrow> (if n < length xs then Some (xs ! n) else None)
      | None \<Rightarrow> None)"

text \<open>
  \<^verbatim>\<open>row[j]\<close> used as an operand of arithmetic: \<^verbatim>\<open>undefined\<close> converts to NaN there.
\<close>

definition cell_at :: "jsnum list \<Rightarrow> jsnum \<Rightarrow> jsnum" where
  "cell_at xs j = (case row_at xs j of Some v \<Rightarrow> v | None \<Rightarrow> NaN)"

type_synonym grid = "jsnum list list"

section \<open>Landscape generation\<close>

text \<open>
  \<^verbatim>\<open>smoothedGrid[i][j]\<close> read as an operand inside the loops of the smoothing pass, and the
  assignment \<^verbatim>\<open>smoothedGrid[i][j] = v\<close>, which lengthens a row that is too short (the holes
  read as \<^verbatim>\<open>undefined\<close>). The loops only reach rows that exist.
\<close>

definition grid_cell :: "grid \<Rightarrow> nat \<Rightarrow> nat \<Rightarrow> jsnum" where
  "grid_cell g i j = (if i < length g \<and> j < length (g ! i) then g ! i ! j else NaN)"

definition array_set :: "jsnum list \<Rightarrow> nat \<Rightarrow> jsnum \<Rightarrow> jsnum list" where
  "array_set xs j v =
     (if j < length xs then xs[j := v] else xs @ replicate (j - length xs) NaN @ [v])"

definition grid_set :: "grid \<Rightarrow> nat \<Rightarrow> nat \<Rightarrow> jsnum \<Rightarrow> grid" where
  "grid_set g i j v = (if i < length g then g[i := array_set (g ! i) j v] else g)"

text \<open>
  \<^verbatim>\<open>JSON.parse(JSON.stringify(grid))\<close>: a fresh copy, in which NaN and the infinities have
  become \<^verbatim>\<open>null\<close>. Every later use of a cell is arithmetic or a comparison, where
  \<^verbatim>\<open>null\<close> converts to 0, so \<^verbatim>\<open>null\<close> is modelled as 0.
\<close>

definition jsonCopy :: "grid \<Rightarrow> grid" where
  "jsonCopy g = map (map (\<lambda>v. case v of Num r \<Rightarrow> Num r | _ \<Rightarrow> Num 0)) g"

text \<open>
  Lines 112 to 123: the new value of a cell \<open>c\<close> from the four values read around it, and
  the body of the inner loop, which reads and writes the one buffer \<open>smoothedGrid\<close>.
\<close>

definition gibbsUpdate :: "jsnum \<Rightarrow> jsnum \<Rightarrow> jsnum \<Rightarrow> jsnum \<Rightarrow> jsnum \<Rightarrow> jsnum" where
  "gibbsUpdate up down left right c =
     (let neighborAvg = (up + down + left + right) / Num 4.0;
          temperature = Num 0.2;
          weight = Math_exp ((- Math_abs (c - neighborAvg)) / temperature)
      in weight * neighborAvg + (Num 1 - weight) * c)"

definition smoothCell :: "grid \<Rightarrow> nat \<Rightarrow> nat \<Rightarrow> grid" where
  "smoothCell smoothedGrid i j =
     grid_set smoothedGrid i j
       (gibbsUpdate (grid_cell smoothedGrid (i - 1) j) (grid_cell smoothedGrid (i + 1) j)
          (grid_cell smoothedGrid i (j - 1)) (grid_cell smoothedGrid i (j + 1))
          (grid_cell smoothedGrid i j))"

text \<open>The loop on \<open>j\<close> from 1 to \<open>cols - 2\<close>, and the loop on \<open>i\<close> from 1 to \<open>rows - 2\<close>.\<close>

definition smoothRow :: "grid \<Rightarrow> nat \<Rightarrow> nat \<Rightarrow> grid" where
  "smoothRow smoothedGrid i cols = foldl (\<lambda>g j. smoothCell g i j) smoothedGrid [1..<cols - 1]"

definition smoothPass :: "nat \<Rightarrow> nat \<Rightarrow> grid \<Rightarrow> grid" where
  "smoothPass rows cols smoothedGrid =
     foldl (\<lambda>g i. smoothRow g i cols) smoothedGrid [1..<rows - 1]"

text \<open>\<^verbatim>\<open>gibbsSmoothingPass(grid, iterations)\<close>; \<^verbatim>\<open>grid[0].length\<close> throws on an empty grid.\<close>

definition gibbsSmoothingPass :: "grid \<Rightarrow> nat \<Rightarrow> jserror + grid" where
  "gibbsSmoothingPass grid iterations =
     (case grid of
        [] \<Rightarrow> Inl TypeError
      | row0 # _ \<Rightarrow>
          (let rows = length grid;
               cols = length row0;
               smoothedGrid = jsonCopy grid
           in Inr ((smoothPass rows cols ^^ iterations) smoothedGrid)))"

record peak =
  peak_x :: jsnum
  peak_y :: jsnum
  peak_height :: jsnum
  peak_spread :: jsnum

record saddle =
  saddle_x :: jsnum
  saddle_y :: jsnum
  saddle_strength :: jsnum
  saddle_spreadX :: jsnum
  saddle_spreadY :: jsnum

definition peaks :: "jsnum \<Rightarrow> jsnum \<Rightarrow> peak list" where
  "peaks cols rows =
     [\<lparr>peak_x = cols * Num 0.3, peak_y = rows * Num 0.7, peak_height = Num 0.8, peak_spread = Num 0.2\<rparr>,
      \<lparr>peak_x = cols * Num 0.7, peak_y = rows * Num 0.3, peak_height = Num 1.0, peak_spread = Num 0.2\<rparr>,
      \<lparr>peak_x = cols * Num 0.5, peak_y = rows * Num 0.5, peak_height = Num 0.7, peak_spread = Num 0.3\<rparr>,
      \<lparr>peak_x = cols * Num 0.2, peak_y = rows * Num 0.2, peak_height = Num 0.5, peak_spread = Num 0.1\<rparr>,
      \<lparr>peak_x = cols * Num 0.8, peak_y = rows * Num 0.8, peak_height = Num 0.6, peak_spread = Num 0.15\<rparr>]"

definition saddlePoints :: "jsnum \<Rightarrow> jsnum \<Rightarrow> saddle list" where
  "saddlePoints cols rows =
     [\<lparr>saddle_x = cols * Num 0.4, saddle_y = rows * Num 0.4, saddle_strength = Num 0.3,
       saddle_spreadX = Num 0.2, saddle_spreadY = Num 0.3\<rparr>,
      \<lparr>saddle_x = cols * Num 0.6, saddle_y = rows * Num 0.6, saddle_strength = Num 0.4,
       saddle_spreadX = Num 0.25, saddle_spreadY = Num 0.15\<rparr>]"

text \<open>Lines 43 to 48 and 54 to 61: what one peak and one saddle add at the cell \<open>(i, j)\<close>.\<close>

definition gaussianTerm :: "jsnum \<Rightarrow> jsnum \<Rightarrow> jsnum \<Rightarrow> jsnum \<Rightarrow> peak \<Rightarrow> jsnum" where
  "gaussianTerm cols rows i j pk =
     (let dx = j - peak_x pk;
          dy = i - peak_y pk;
          distSquared = (dx * dx + dy * dy) / (cols * cols + rows * rows)
      in peak_height pk * Math_exp ((- distSquared) / (Num 2 * peak_spread pk * peak_spread pk)))"

definition saddleTerm :: "jsnum \<Rightarrow> jsnum \<Rightarrow> jsnum \<Rightarrow> jsnum \<Rightarrow> saddle \<Rightarrow> jsnum" where
  "saddleTerm cols rows i j sd =
     (let dx = (j - saddle_x sd) / cols;
          dy = (i - saddle_y sd) / rows
      in saddle_strength sd
           * (Math_pow2 (dx / saddle_spreadX sd) - Math_pow2 (dy / saddle_spreadY sd)))"

text \<open>
  Lines 38 to 72: the value stored in the cell \<open>(i, j)\<close>. The cell takes three draws from
  \<open>rnd k\<close> on: two for \<^verbatim>\<open>boxMullerTransform\<close>, one for the uniform noise.
\<close>

definition cellValue :: "jsnum \<Rightarrow> jsnum \<Rightarrow> jsnum \<Rightarrow> jsnum \<Rightarrow> draws \<Rightarrow> nat \<Rightarrow> jsnum" where
  "cellValue cols rows i j rnd k =
     (let gaussianValue = foldl (\<lambda>acc pk. acc + gaussianTerm cols rows i j pk) (Num 0) (peaks cols rows);
          saddleValue = foldl (\<lambda>acc sd. acc + saddleTerm cols rows i j sd) (Num 0)
                          (saddlePoints cols rows);
          mcNoise = boxMullerTransform (rnd k) (rnd (k + 1)) * Num 0.08;
          v = gaussianValue + saddleValue * Num 0.2 + mcNoise + Num (rnd (k + 2)) * Num 0.02
      in Math_min (Math_max v (Num 0)) (Num 1))"

text \<open>\<^verbatim>\<open>new Array(n)\<close> throws a RangeError unless \<open>n\<close> is an integer from 0 to \<open>2^32 - 1\<close>.\<close>

definition new_Array :: "jsnum \<Rightarrow> jserror + nat" where
  "new_Array n =
     (case array_index n of
        Some m \<Rightarrow> (if m < 2 ^ 32 then Inr m else Inl RangeError)
      | None \<Rightarrow> Inl RangeError)"

text \<open>
  Lines 36 to 74: the grid of \<open>nrows\<close> rows and \<open>ncols\<close> columns the two loops fill. The
  cells are filled row by row, so the cell \<open>(i, j)\<close> takes the draws from
  \<open>3 * (i * ncols + j)\<close> on.
\<close>

definition initialGrid :: "jsnum \<Rightarrow> jsnum \<Rightarrow> nat \<Rightarrow> nat \<Rightarrow> draws \<Rightarrow> grid" where
  "initialGrid cols rows nrows ncols rnd =
     map (\<lambda>i. map (\<lambda>j. cellValue cols rows (Num (real i)) (Num (real j)) rnd (3 * (i * ncols + j)))
                [0..<ncols])
         [0..<nrows]"

text \<open>
  \<^verbatim>\<open>generateLossLandscape(width, height, resolution)\<close>. With no row, no array of columns
  is made and the smoothing pass is called on the empty grid.
\<close>

definition generateLossLandscape :: "jsnum \<Rightarrow> jsnum \<Rightarrow> jsnum \<Rightarrow> draws \<Rightarrow> jserror + grid" where
  "generateLossLandscape width height resolution rnd =
     (let cols = Math_floor (width / resolution);
          rows = Math_floor (height / resolution)
      in case new_Array rows of
           Inl e \<Rightarrow> Inl e
         | Inr nrows \<Rightarrow>
             (if nrows = 0 then gibbsSmoothingPass [] 1
              else case new_Array cols of
                     Inl e \<Rightarrow> Inl e
                   | Inr ncols \<Rightarrow> gibbsSmoothingPass (initialGrid cols rows nrows ncols rnd) 1))"

section \<open>Gradient estimation\<close>

record gradient =
  grad_dx :: jsnum
  grad_dy :: jsnum

text \<open>
  \<^verbatim>\<open>calculateGradient(grid, x, y, noiseLevel)\<close>. The draws of the call start at \<open>rnd k\<close>;
  with a positive noise level it makes two calls of \<^verbatim>\<open>boxMullerTransform\<close>, of two draws
  each. \<^verbatim>\<open>grid[0].length\<close> on an empty grid and \<^verbatim>\<open>grid[r][c]\<close> on a row that does not
  exist throw a TypeError.
\<close>

definition calculateGradient ::
  "grid \<Rightarrow> jsnum \<Rightarrow> jsnum \<Rightarrow> jsnum \<Rightarrow> draws \<Rightarrow> nat \<Rightarrow> jserror + gradient" where
  "calculateGradient grid x y noiseLevel rnd k =
     (case grid of
        [] \<Rightarrow> Inl TypeError
      | row0 # _ \<Rightarrow>
          (let rows = Num (real (length grid));
               cols = Num (real (length row0));
               row = Math_min (Math_max (Math_floor y) (Num 1)) (rows - Num 2);
               col = Math_min (Math_max (Math_floor x) (Num 1)) (cols - Num 2)
           in case row_at grid row of
                None \<Rightarrow> Inl TypeError
              | Some r \<Rightarrow>
                  (let dx = (cell_at r (col + Num 1) - cell_at r (col - Num 1)) / Num 2
                   in case row_at grid (row + Num 1) of
                        None \<Rightarrow> Inl TypeError
                      | Some rdown \<Rightarrow>
                          (case row_at grid (row - Num 1) of
                             None \<Rightarrow> Inl TypeError
                           | Some rup \<Rightarrow>
                               (let dy = (cell_at rdown col - cell_at rup col) / Num 2
                                in if noiseLevel > Num 0
                                   then Inr \<lparr>grad_dx = dx + boxMullerTransform (rnd k) (rnd (k + 1))
                                                   * noiseLevel * Math_abs dx,
                                             grad_dy = dy + boxMullerTransform (rnd (k + 2)) (rnd (k + 3))
                                                   * noiseLevel * Math_abs dy\<rparr>
                                   else Inr \<lparr>grad_dx = dx, grad_dy = dy\<rparr>)))))"

section \<open>One simulation step\<close>

record position =
  pos_x :: jsnum
  pos_y :: jsnum

record step_result =
  res_defender :: position
  res_adversary :: position

text \<open>
  Lines 257 to 287 of \<^verbatim>\<open>simulateStep\<close>: the two gradients and the displacement each agent
  proposes, \<open>(defDx, defDy)\<close> and \<open>(advDx, advDy)\<close>. The defender's gradient takes the draws
  0 to 3, the adversary's the draws 4 to 7.
\<close>

definition proposedMoves ::
  "position \<Rightarrow> position \<Rightarrow> grid \<Rightarrow> jsnum \<Rightarrow> jsnum \<Rightarrow> draws
     \<Rightarrow> jserror + ((jsnum \<times> jsnum) \<times> (jsnum \<times> jsnum))" where
  "proposedMoves defender adversary grid defenseStrength attackStrength rnd =
     (let strengthRatio = attackStrength / defenseStrength;
          adversaryNoiseLevel = (if strengthRatio > Num 1 then Num 0.04 else Num 0.08);
          defenderNoiseLevel = (if strengthRatio > Num 1 then Num 0.08 else Num 0.05)
      in case calculateGradient grid (pos_x defender) (pos_y defender) defenderNoiseLevel rnd 0 of
           Inl e \<Rightarrow> Inl e
         | Inr defenderGradient \<Rightarrow>
             (case calculateGradient grid (pos_x adversary) (pos_y adversary)
                     adversaryNoiseLevel rnd 4 of
                Inl e \<Rightarrow> Inl e
              | Inr adversaryGradient \<Rightarrow>
                  (let defMagnitude = Math_sqrt (grad_dx defenderGradient * grad_dx defenderGradient
                                        + grad_dy defenderGradient * grad_dy defenderGradient);
                       advMagnitude = Math_sqrt (grad_dx adversaryGradient * grad_dx adversaryGradient
                                        + grad_dy adversaryGradient * grad_dy adversaryGradient);
                       defScale = Num 0.02 * defenseStrength / (Num 0.1 + defMagnitude);
                       advScale = (if strengthRatio > Num 1
                                   then Num 0.025 * attackStrength / (Num 0.05 + advMagnitude)
                                   else Num 0.02 * attackStrength / (Num 0.1 + advMagnitude));
                       defDx = (- grad_dx defenderGradient) * defScale;
                       defDy = (- grad_dy defenderGradient) * defScale;
                       advDx = grad_dx adversaryGradient * advScale;
                       advDy = grad_dy adversaryGradient * advScale
                   in Inr ((defDx, defDy), (advDx, advDy)))))"

text \<open>Line 303: the perturbation budget.\<close>

definition maxPerturbation :: "jsnum \<Rightarrow> jsnum \<Rightarrow> jsnum" where
  "maxPerturbation attackStrength defenseStrength =
     Num 0.2 * attackStrength
       * (if attackStrength / defenseStrength > Num 1 then Num 1.2 else Num 1.0)"

text \<open>
  Lines 295 to 310: the displacement added to the adversary's position, which is the proposal
  itself unless its length exceeds the budget.
\<close>

definition budgetedMove :: "jsnum \<Rightarrow> jsnum \<Rightarrow> jsnum \<Rightarrow> jsnum \<times> jsnum" where
  "budgetedMove advDx advDy maxPert =
     (let advDist = Math_sqrt (advDx * advDx + advDy * advDy)
      in if advDist > maxPert
         then (let scale = maxPert / advDist in (advDx * scale, advDy * scale))
         else (advDx, advDy))"

text \<open>
  Lines 315 to 323: the term of a targeted jump, \<open>None\<close> when the two agents coincide and
  nothing is added.
\<close>

definition targetedJump :: "position \<Rightarrow> position \<Rightarrow> jsnum \<Rightarrow> (jsnum \<times> jsnum) option" where
  "targetedJump defender adversary maxPert =
     (let targetJump = Num 0.15;
          dirX = pos_x defender - pos_x adversary;
          dirY = pos_y defender - pos_y adversary;
          dirMag = Math_sqrt (dirX * dirX + dirY * dirY)
      in if dirMag > Num 0
         then Some ((dirX / dirMag) * targetJump * maxPert, (dirY / dirMag) * targetJump * maxPert)
         else None)"

text \<open>Lines 330 to 333: \<^verbatim>\<open>Math.min(Math.max(v, 0), n - 1)\<close>.\<close>

definition boardClamp :: "jsnum \<Rightarrow> jsnum \<Rightarrow> jsnum" where
  "boardClamp v n = Math_min (Math_max v (Num 0)) (n - Num 1)"

text \<open>
  \<^verbatim>\<open>simulateStep(defender, adversary, grid, defenseStrength, attackStrength)\<close> on values.
  Draw 8 is the test of the targeted jump, made only when the strength ratio exceeds 1.
\<close>

definition simulateStep ::
  "position \<Rightarrow> position \<Rightarrow> grid \<Rightarrow> jsnum \<Rightarrow> jsnum \<Rightarrow> draws \<Rightarrow> jserror + step_result" where
  "simulateStep defender adversary grid defenseStrength attackStrength rnd =
     (case proposedMoves defender adversary grid defenseStrength attackStrength rnd of
        Inl e \<Rightarrow> Inl e
      | Inr ((defDx, defDy), (advDx, advDy)) \<Rightarrow>
          (case grid of
             [] \<Rightarrow> Inl TypeError
           | row0 # _ \<Rightarrow>
               (let strengthRatio = attackStrength / defenseStrength;
                    newDefender = \<lparr>pos_x = pos_x defender + defDx, pos_y = pos_y defender + defDy\<rparr>;
                    maxPert = maxPerturbation attackStrength defenseStrength;
                    (bx, by) = budgetedMove advDx advDy maxPert;
                    newAdversary = \<lparr>pos_x = pos_x adversary + bx, pos_y = pos_y adversary + by\<rparr>;
                    jumped = (if strengthRatio > Num 1 \<and> Num (rnd 8) < Num 0.08
                              then (case targetedJump defender adversary maxPert of
                                      Some (jx, jy) \<Rightarrow> \<lparr>pos_x = pos_x newAdversary + jx,
                                                        pos_y = pos_y newAdversary + jy\<rparr>
                                    | None \<Rightarrow> newAdversary)
                              else newAdversary);
                    rows = Num (real (length grid));
                    cols = Num (real (length row0))
                in Inr \<lparr>res_defender = \<lparr>pos_x = boardClamp (pos_x newDefender) cols,
                                         pos_y = boardClamp (pos_y newDefender) rows\<rparr>,
                        res_adversary = \<lparr>pos_x = boardClamp (pos_x jumped) cols,
                                          pos_y = boardClamp (pos_y jumped) rows\<rparr>\<rparr>)))"

section \<open>One simulation step on a store\<close>

text \<open>
  To follow what \<^verbatim>\<open>simulateStep\<close> writes, objects live in a store: an address is an index
  into the list of objects, a position object holds its two fields, a grid is an array of
  the addresses of its rows, and a new object takes the next free address.
\<close>

datatype jsobj = PositionObj position | RowObj "jsnum list" | GridObj "nat list"

type_synonym heap = "jsobj list"

text \<open>Allocation, reads (\<open>None\<close> where there is no such object) and field writes.\<close>

definition alloc :: "heap \<Rightarrow> jsobj \<Rightarrow> nat \<times> heap" where
  "alloc h obj = (length h, h @ [obj])"

definition read_position :: "heap \<Rightarrow> nat \<Rightarrow> position option" where
  "read_position h r =
     (if r < length h then (case h ! r of PositionObj p \<Rightarrow> Some p | _ \<Rightarrow> None) else None)"

definition read_row :: "heap \<Rightarrow> nat \<Rightarrow> jsnum list option" where
  "read_row h r =
     (if r < length h then (case h ! r of RowObj xs \<Rightarrow> Some xs | _ \<Rightarrow> None) else None)"

definition read_grid :: "heap \<Rightarrow> nat \<Rightarrow> grid option" where
  "read_grid h r =
     (if r < length h
      then (case h ! r of GridObj rs \<Rightarrow> those (map (read_row h) rs) | _ \<Rightarrow> None)
      else None)"

definition get_x :: "heap \<Rightarrow> nat \<Rightarrow> jsnum" where
  "get_x h r = (case read_position h r of Some p \<Rightarrow> pos_x p | None \<Rightarrow> NaN)"

definition get_y :: "heap \<Rightarrow> nat \<Rightarrow> jsnum" where
  "get_y h r = (case read_position h r of Some p \<Rightarrow> pos_y p | None \<Rightarrow> NaN)"

definition set_x :: "heap \<Rightarrow> nat \<Rightarrow> jsnum \<Rightarrow> heap" where
  "set_x h r v =
     (case read_position h r of Some p \<Rightarrow> h[r := PositionObj (p\<lparr>pos_x := v\<rparr>)] | None \<Rightarrow> h)"

definition set_y :: "heap \<Rightarrow> nat \<Rightarrow> jsnum \<Rightarrow> heap" where
  "set_y h r v =
     (case read_position h r of Some p \<Rightarrow> h[r := PositionObj (p\<lparr>pos_y := v\<rparr>)] | None \<Rightarrow> h)"

text \<open>Lines 304 to 310, lines 315 to 323 and lines 330 to 333, as writes to the store.\<close>

definition applyBudget :: "heap \<Rightarrow> nat \<Rightarrow> nat \<Rightarrow> jsnum \<Rightarrow> jsnum \<Rightarrow> jsnum \<Rightarrow> heap" where
  "applyBudget h adversary newAdversary advDx advDy maxPert =
     (let advDist = Math_sqrt (advDx * advDx + advDy * advDy)
      in if advDist > maxPert
         then (let scale = maxPert / advDist;
                   h' = set_x h newAdversary (get_x h adversary + advDx * scale)
               in set_y h' newAdversary (get_y h' adversary + advDy * scale))
         else h)"

definition applyJump :: "heap \<Rightarrow> nat \<Rightarrow> nat \<Rightarrow> nat \<Rightarrow> jsnum \<Rightarrow> heap" where
  "applyJump h defender adversary newAdversary maxPert =
     (let targetJump = Num 0.15;
          dirX = get_x h defender - get_x h adversary;
          dirY = get_y h defender - get_y h adversary;
          dirMag = Math_sqrt (dirX * dirX + dirY * dirY)
      in if dirMag > Num 0
         then (let h' = set_x h newAdversary
                          (get_x h newAdversary + (dirX / dirMag) * targetJump * maxPert)
               in set_y h' newAdversary
                    (get_y h' newAdversary + (dirY / dirMag) * targetJump * maxPert))
         else h)"

definition clampToBoard :: "heap \<Rightarrow> nat \<Rightarrow> nat \<Rightarrow> jsnum \<Rightarrow> jsnum \<Rightarrow> heap" where
  "clampToBoard h newDefender newAdversary rows cols =
     (let h1 = set_x h newDefender (boardClamp (get_x h newDefender) cols);
          h2 = set_y h1 newDefender (boardClamp (get_y h1 newDefender) rows);
          h3 = set_x h2 newAdversary (boardClamp (get_x h2 newAdversary) cols)
      in set_y h3 newAdversary (boardClamp (get_y h3 newAdversary) rows))"

text \<open>
  Lines 290 to 298: the two object literals \<^verbatim>\<open>newDefender\<close> and \<^verbatim>\<open>newAdversary\<close>; and
  lines 303 to 333: all the assignments that follow them.
\<close>

definition newPositions ::
  "heap \<Rightarrow> nat \<Rightarrow> nat \<Rightarrow> jsnum \<Rightarrow> jsnum \<Rightarrow> jsnum \<Rightarrow> jsnum \<Rightarrow> nat \<times> nat \<times> heap" where
  "newPositions h defender adversary defDx defDy advDx advDy =
     (let (newDefender, h1) =
            alloc h (PositionObj \<lparr>pos_x = get_x h defender + defDx,
                                  pos_y = get_y h defender + defDy\<rparr>);
          (newAdversary, h2) =
            alloc h1 (PositionObj \<lparr>pos_x = get_x h1 adversary + advDx,
                                   pos_y = get_y h1 adversary + advDy\<rparr>)
      in (newDefender, newAdversary, h2))"

definition updatePositions ::
  "heap \<Rightarrow> nat \<Rightarrow> nat \<Rightarrow> nat \<Rightarrow> nat \<Rightarrow> jsnum \<Rightarrow> jsnum \<Rightarrow> jsnum \<Rightarrow> jsnum \<Rightarrow> draws
     \<Rightarrow> jsnum \<Rightarrow> jsnum \<Rightarrow> heap" where
  "updatePositions h defender adversary newDefender newAdversary advDx advDy
       defenseStrength attackStrength rnd rows cols =
     (let strengthRatio = attackStrength / defenseStrength;
          maxPert = maxPerturbation attackStrength defenseStrength;
          h3 = applyBudget h adversary newAdversary advDx advDy maxPert;
          h4 = (if strengthRatio > Num 1 \<and> Num (rnd 8) < Num 0.08
                then applyJump h3 defender adversary newAdversary maxPert
                else h3)
      in clampToBoard h4 newDefender newAdversary rows cols)"

text \<open>
  \<^verbatim>\<open>simulateStep\<close> on a store: \<open>defender\<close>, \<open>adversary\<close> and \<open>grid\<close> are the addresses of the
  three arguments, and the result is the new store with the addresses of the two positions
  returned. The gradient estimate only reads the grid and assigns to its own local
  variables, so it is taken on the values read.
\<close>

definition simulateStep_store ::
  "heap \<Rightarrow> nat \<Rightarrow> nat \<Rightarrow> nat \<Rightarrow> jsnum \<Rightarrow> jsnum \<Rightarrow> draws \<Rightarrow> heap \<times> (jserror + nat \<times> nat)" where
  "simulateStep_store h defender adversary grid defenseStrength attackStrength rnd =
     (case (read_position h defender, read_position h adversary, read_grid h grid) of
        (Some d, Some a, Some g) \<Rightarrow>
          (case proposedMoves d a g defenseStrength attackStrength rnd of
             Inl e \<Rightarrow> (h, Inl e)
           | Inr ((defDx, defDy), (advDx, advDy)) \<Rightarrow>
               (case g of
                  [] \<Rightarrow> (h, Inl TypeError)
                | row0 # _ \<Rightarrow>
                    (let (newDefender, newAdversary, h2) =
                           newPositions h defender adversary defDx defDy advDx advDy;
                         rows = Num (real (length g));
                         cols = Num (real (length row0))
                     in (updatePositions h2 defender adversary newDefender newAdversary advDx advDy
                           defenseStrength attackStrength rnd rows cols,
                         Inr (newDefender, newAdversary)))))
      | _ \<Rightarrow> (h, Inl TypeError))"

text \<open>\<open>same_except W h h'\<close>: the store \<open>h'\<close> is \<open>h\<close> but for the objects at the addresses \<open>W\<close>.\<close>

definition same_except :: "nat set \<Rightarrow> heap \<Rightarrow> heap \<Rightarrow> bool" where
  "same_except W h h' = (length h' = length h \<and> (\<forall>q. q \<notin> W \<longrightarrow> h' ! q = h ! q))"

text \<open>\<open>unchanged h h'\<close>: every object of the store \<open>h\<close> is still there in \<open>h'\<close>, as it was.\<close>

definition unchanged :: "heap \<Rightarrow> heap \<Rightarrow> bool" where
  "unchanged h h' = (length h \<le> length h' \<and> (\<forall>r < length h. h' ! r = h ! r))"

section \<open>The dynamic loss\<close>

record losses =
  loss_defender :: jsnum
  loss_adversary :: jsnum

text \<open>Lines 383 and 386: the advantage factor of a stronger adversary.\<close>

definition strengthAdvantage :: "jsnum \<Rightarrow> jsnum \<Rightarrow> jsnum" where
  "strengthAdvantage attackStrength defenseStrength =
     Math_max (Num 0) (attackStrength / defenseStrength - Num 1) * Num 0.15"

text \<open>
  \<^verbatim>\<open>calculateDynamicLoss(grid, defender, adversary, iteration, defenseStrength,
  attackStrength)\<close>. The noise of the defender's loss takes the draws 0 and 1, that of the
  adversary's loss the draws 2 and 3.
\<close>

definition calculateDynamicLoss ::
  "grid \<Rightarrow> position \<Rightarrow> position \<Rightarrow> jsnum \<Rightarrow> jsnum \<Rightarrow> jsnum \<Rightarrow> draws \<Rightarrow> jserror + losses" where
  "calculateDynamicLoss grid defender adversary iteration defenseStrength attackStrength rnd =
     (case grid of
        [] \<Rightarrow> Inl TypeError
      | row0 # _ \<Rightarrow>
          (let rows = Num (real (length grid));
               cols = Num (real (length row0));
               defRow = Math_min (Math_max (Math_floor (pos_y defender)) (Num 0)) (rows - Num 1);
               defCol = Math_min (Math_max (Math_floor (pos_x defender)) (Num 0)) (cols - Num 1);
               advRow = Math_min (Math_max (Math_floor (pos_y adversary)) (Num 0)) (rows - Num 1);
               advCol = Math_min (Math_max (Math_floor (pos_x adversary)) (Num 0)) (cols - Num 1)
           in case row_at grid defRow of
                None \<Rightarrow> Inl TypeError
              | Some rdef \<Rightarrow>
                  (let baseLoss = cell_at rdef defCol;
                       dx = (pos_x defender - pos_x adversary) / cols;
                       dy = (pos_y defender - pos_y adversary) / rows;
                       distance = Math_sqrt (dx * dx + dy * dy);
                       learningFactor = Math_max (Num 0.1) (Num 1.0 - iteration / Num 500);
                       influenceRange = Num 0.3;
                       influence = Math_max (Num 0) (Num 1.0 - distance / influenceRange);
                       oscillation = Num 0.1 * Math_sin (iteration / Num 10);
                       strengthRatio = attackStrength / defenseStrength;
                       advantage = strengthAdvantage attackStrength defenseStrength;
                       defenderLoss = (baseLoss * Num 0.7 + influence * Num 0.2 + oscillation
                                        + boxMullerTransform (rnd 0) (rnd 1) * Num 0.03) * learningFactor
                   in case row_at grid advRow of
                        None \<Rightarrow> Inl TypeError
                      | Some radv \<Rightarrow>
                          (let adversaryLoss = (cell_at radv advCol * Num 0.3 + baseLoss * Num 0.4
                                                 + influence * Num 0.2 + oscillation
                                                 + boxMullerTransform (rnd 2) (rnd 3) * Num 0.05)
                                               * learningFactor;
                               defenderLoss1 = (if strengthRatio > Num 1
                                                then Math_min (defenderLoss * (Num 1 + advantage)) (Num 1)
                                                else defenderLoss);
                               adversaryLoss1 = (if strengthRatio > Num 1
                                                 then Math_max (adversaryLoss * (Num 1 - advantage)) (Num 0)
                                                 else adversaryLoss);
                               defenderLoss2 =
                                 (if strengthRatio > Num 1 \<and> iteration > Num 50
                                  then (let growingGap = Math_min (Num 0.3) ((iteration - Num 50) / Num 500)
                                        in Math_min (defenderLoss1 + growingGap * Math_sin (iteration / Num 30))
                                             (Num 1))
                                  else defenderLoss1)
                           in Inr \<lparr>loss_defender = Math_min (Math_max defenderLoss2 (Num 0)) (Num 1),
                                   loss_adversary = Math_min (Math_max adversaryLoss1 (Num 0)) (Num 1)\<rparr>))))"



section \<open>Predicates of the statements\<close>

definition isFinite :: "jsnum \<Rightarrow> bool" where
  "isFinite v = (case v of Num r \<Rightarrow> True | _ \<Rightarrow> False)"

definition in_unit :: "jsnum \<Rightarrow> bool" where
  "in_unit v = (case v of Num r \<Rightarrow> 0 \<le> r \<and> r \<le> 1 | _ \<Rightarrow> False)"

text \<open>A grid of \<open>rows\<close> rows that all have \<open>cols\<close> cells.\<close>

definition rectangular :: "nat \<Rightarrow> nat \<Rightarrow> grid \<Rightarrow> bool" where
  "rectangular rows cols g = (length g = rows \<and> (\<forall>r \<in> set g. length r = cols))"

definition unit_grid :: "grid \<Rightarrow> bool" where
  "unit_grid g = (\<forall>r \<in> set g. \<forall>v \<in> set r. in_unit v)"

text \<open>The cells the two loops of a pass visit: all but the outermost ring.\<close>

definition interior :: "nat \<Rightarrow> nat \<Rightarrow> nat \<Rightarrow> nat \<Rightarrow> bool" where
  "interior rows cols i j = (1 \<le> i \<and> i + 1 < rows \<and> 1 \<le> j \<and> j + 1 < cols)"

text \<open>
  The pass as section 4.2a of the specification words it, for comparison with
  \<open>smoothPass\<close>: every interior cell is computed from the grid as it was before the pass.
\<close>

definition snapshotSmoothingPass :: "grid \<Rightarrow> grid" where
  "snapshotSmoothingPass g =
     map (\<lambda>i. map (\<lambda>j. if interior (length g) (length (g ! i)) i j
                         then gibbsUpdate (grid_cell g (i - 1) j) (grid_cell g (i + 1) j)
                                (grid_cell g i (j - 1)) (grid_cell g i (j + 1)) (grid_cell g i j)
                         else grid_cell g i j)
                [0..<length (g ! i)])
         [0..<length g]"

text \<open>A grid of 3 rows and 4 columns with two interior cells, for the concrete runs.\<close>

definition bump_grid :: grid where
  "bump_grid = [[Num 0, Num 0, Num 0, Num 0],
                [Num 0, Num 1, Num (1 / 4), Num 0],
                [Num 0, Num 0, Num 0, Num 0]]"

text \<open>Grids and positions of finite numbers.\<close>

definition finite_grid :: "grid \<Rightarrow> bool" where
  "finite_grid g = (\<forall>r \<in> set g. \<forall>v \<in> set r. isFinite v)"

definition finite_position :: "position \<Rightarrow> bool" where
  "finite_position p = (isFinite (pos_x p) \<and> isFinite (pos_y p))"

text \<open>
  Numbers of moderate size, which are 0 or between \<open>1 / 10 ^ 100\<close> and \<open>10 ^ 100\<close> in
  magnitude, and strengths, which are positive numbers of moderate size. The statements on
  the step and on the loss are made for such inputs: there the sums, products and quotients
  that decide them stay within the range of double precision, outside of which the
  arithmetic of the model, which neither overflows nor underflows, is no longer that of the
  engine.
\<close>

definition moderate_real :: "real \<Rightarrow> bool" where
  "moderate_real r = ((r = 0 \<or> 1 / 10 ^ 100 \<le> \<bar>r\<bar>) \<and> \<bar>r\<bar> \<le> 10 ^ 100)"

definition moderate :: "jsnum \<Rightarrow> bool" where
  "moderate v = (case v of Num r \<Rightarrow> moderate_real r | _ \<Rightarrow> False)"

definition moderate_position :: "position \<Rightarrow> bool" where
  "moderate_position p = (moderate (pos_x p) \<and> moderate (pos_y p))"

definition strength :: "jsnum \<Rightarrow> bool" where
  "strength v = (case v of Num r \<Rightarrow> 1 / 10 ^ 100 \<le> r \<and> r \<le> 10 ^ 100 | _ \<Rightarrow> False)"

text \<open>
  Draws as \<^verbatim>\<open>Math.random()\<close> returns them, in \<open>[0, 1)\<close>. \<^verbatim>\<open>simulateStep\<close> takes the
  logarithm of its draws 0, 2, 4 and 6, the first draw of each of its four noise samples, and
  \<^verbatim>\<open>calculateDynamicLoss\<close> that of its draws 0 and 2: \<open>step_draws\<close> and \<open>loss_draws\<close> are the
  draws of which none of these is 0.
\<close>

definition uniform_draws :: "draws \<Rightarrow> bool" where
  "uniform_draws rnd = (\<forall>k. 0 \<le> rnd k \<and> rnd k < 1)"

definition step_draws :: "draws \<Rightarrow> bool" where
  "step_draws rnd = (uniform_draws rnd \<and> rnd 0 \<noteq> 0 \<and> rnd 2 \<noteq> 0 \<and> rnd 4 \<noteq> 0 \<and> rnd 6 \<noteq> 0)"

definition loss_draws :: "draws \<Rightarrow> bool" where
  "loss_draws rnd = (uniform_draws rnd \<and> rnd 0 \<noteq> 0 \<and> rnd 2 \<noteq> 0)"

text \<open>A position inside the board \<open>[0, cols - 1] \<times> [0, rows - 1]\<close>.\<close>

definition in_range :: "real \<Rightarrow> real \<Rightarrow> jsnum \<Rightarrow> bool" where
  "in_range lo hi v = (case v of Num r \<Rightarrow> lo \<le> r \<and> r \<le> hi | _ \<Rightarrow> False)"

definition on_board :: "nat \<Rightarrow> nat \<Rightarrow> position \<Rightarrow> bool" where
  "on_board rows cols p =
     (in_range 0 (real cols - 1) (pos_x p) \<and> in_range 0 (real rows - 1) (pos_y p))"

text \<open>
  A gradient component after the noise of lines 203 to 206, as written in the statements.
\<close>

definition noisy :: "jsnum \<Rightarrow> jsnum \<Rightarrow> jsnum \<Rightarrow> jsnum" where
  "noisy d z noiseLevel = (if noiseLevel > Num 0 then d + z * noiseLevel * Math_abs d else d)"

text \<open>The budget clamp on a finite proposal and a finite budget, in real arithmetic.\<close>

definition budgeted :: "real \<Rightarrow> real \<Rightarrow> real \<Rightarrow> real \<times> real" where
  "budgeted ax ay m =
     (if sqrt (ax * ax + ay * ay) > m
      then (ax * (m / sqrt (ax * ax + ay * ay)), ay * (m / sqrt (ax * ax + ay * ay)))
      else (ax, ay))"

text \<open>
  What lines 314 to 324 add to the adversary's position: the targeted jump when it is made,
  nothing otherwise.
\<close>

definition jumpTerm :: "position \<Rightarrow> position \<Rightarrow> jsnum \<Rightarrow> jsnum \<Rightarrow> draws \<Rightarrow> jsnum \<times> jsnum" where
  "jumpTerm defender adversary defenseStrength attackStrength rnd =
     (if attackStrength / defenseStrength > Num 1 \<and> Num (rnd 8) < Num 0.08
      then (case targetedJump defender adversary (maxPerturbation attackStrength defenseStrength) of
              Some j \<Rightarrow> j
            | None \<Rightarrow> (Num 0, Num 0))
      else (Num 0, Num 0))"

text \<open>Inputs of the concrete runs: a position, and the grid whose cells all hold \<open>c\<close>.\<close>

definition origin :: position where
  "origin = \<lparr>pos_x = Num 0, pos_y = Num 0\<rparr>"

definition flat_grid :: "nat \<Rightarrow> nat \<Rightarrow> real \<Rightarrow> grid" where
  "flat_grid rows cols c = replicate rows (replicate cols (Num c))"

definition scenario_defender :: position where
  "scenario_defender = \<lparr>pos_x = Num 5, pos_y = Num 14\<rparr>"

definition scenario_adversary :: position where
  "scenario_adversary = \<lparr>pos_x = Num 14, pos_y = Num 5\<rparr>"

text \<open>A store holding two positions and the rows of \<open>bump_grid\<close>, for the concrete run.\<close>

definition scenario_heap :: heap where
  "scenario_heap =
     [PositionObj origin, PositionObj origin,
      RowObj [Num 0, Num 0, Num 0, Num 0],
      RowObj [Num 0, Num 1, Num (1 / 4), Num 0],
      RowObj [Num 0, Num 0, Num 0, Num 0],
      GridObj [2, 3, 4]]"

section \<open>Numbers\<close>

lemma isFinite_Num [simp]: "isFinite (Num r)"
  by (simp add: isFinite_def)

lemma isFinite_iff: "isFinite v \<longleftrightarrow> (\<exists>r. v = Num r)"
  by (cases v) (simp_all add: isFinite_def)

lemma in_unit_Num [simp]: "in_unit (Num r) = (0 \<le> r \<and> r \<le> 1)"
  by (simp add: in_unit_def)

lemma in_unit_iff: "in_unit v \<longleftrightarrow> (\<exists>r. v = Num r \<and> 0 \<le> r \<and> r \<le> 1)"
  by (cases v) (simp_all add: in_unit_def)

lemma Num_minus [simp]: "Num a - Num b = Num (a - b)"
  by (simp add: minus_jsnum_def)

lemma convex_unit:
  fixes w a c :: real
  assumes "0 \<le> w" "w \<le> 1" "0 \<le> a" "a \<le> 1" "0 \<le> c" "c \<le> 1"
  shows "0 \<le> w * a + (1 - w) * c" "w * a + (1 - w) * c \<le> 1"
proof -
  show "0 \<le> w * a + (1 - w) * c" using assms by simp
  have "w * a \<le> w * 1" using assms by (intro mult_left_mono) simp_all
  moreover have "(1 - w) * c \<le> (1 - w) * 1" using assms by (intro mult_left_mono) simp_all
  ultimately show "w * a + (1 - w) * c \<le> 1" by simp
qed

lemma gibbsUpdate_unit:
  assumes "in_unit up" "in_unit down" "in_unit left" "in_unit right" "in_unit c"
  shows "in_unit (gibbsUpdate up down left right c)"
proof -
  obtain u d l r x where eq: "up = Num u" "down = Num d" "left = Num l" "right = Num r" "c = Num x"
    and b: "0 \<le> u" "u \<le> 1" "0 \<le> d" "d \<le> 1" "0 \<le> l" "l \<le> 1" "0 \<le> r" "r \<le> 1" "0 \<le> x" "x \<le> 1"
    using assms by (auto simp: in_unit_iff)
  define a where "a = (u + d + l + r) / 4"
  define w where "w = exp (- \<bar>x - a\<bar> / 0.2)"
  have a: "0 \<le> a" "a \<le> 1" using b by (simp_all add: a_def)
  have w: "0 \<le> w" "w \<le> 1" by (simp_all add: w_def)
  have "gibbsUpdate up down left right c = Num (w * a + (1 - w) * x)"
    by (simp add: gibbsUpdate_def eq a_def w_def)
  then show ?thesis using convex_unit[OF w a b(9,10)] by simp
qed

lemma isFinite_add: "isFinite a \<Longrightarrow> isFinite b \<Longrightarrow> isFinite (a + b)"
  and isFinite_diff: "isFinite a \<Longrightarrow> isFinite b \<Longrightarrow> isFinite (a - b)"
  and isFinite_mult: "isFinite a \<Longrightarrow> isFinite b \<Longrightarrow> isFinite (a * b)"
  and isFinite_uminus: "isFinite a \<Longrightarrow> isFinite (- a)"
  and isFinite_exp: "isFinite a \<Longrightarrow> isFinite (Math_exp a)"
  and isFinite_abs: "isFinite a \<Longrightarrow> isFinite (Math_abs a)"
  and isFinite_sin: "isFinite a \<Longrightarrow> isFinite (Math_sin a)"
  and isFinite_floor: "isFinite a \<Longrightarrow> isFinite (Math_floor a)"
  and isFinite_max: "isFinite a \<Longrightarrow> isFinite b \<Longrightarrow> isFinite (Math_max a b)"
  and isFinite_min: "isFinite a \<Longrightarrow> isFinite b \<Longrightarrow> isFinite (Math_min a b)"
  by (auto simp: isFinite_iff)

lemma isFinite_div: "isFinite a \<Longrightarrow> isFinite b \<Longrightarrow> b \<noteq> Num 0 \<Longrightarrow> isFinite (a / b)"
  by (auto simp: isFinite_iff)

lemmas isFinite_intros = isFinite_add isFinite_diff isFinite_mult isFinite_uminus isFinite_exp
  isFinite_abs isFinite_sin isFinite_floor isFinite_max isFinite_min isFinite_div isFinite_Num

lemma clamp_unit: "v \<noteq> NaN \<Longrightarrow> in_unit (Math_min (Math_max v (Num 0)) (Num 1))"
  by (cases v) simp_all

lemma gaussianTerm_finite:
  assumes "c \<noteq> 0" "pk \<in> set (peaks (Num c) (Num r))"
  shows "isFinite (gaussianTerm (Num c) (Num r) (Num i) (Num j) pk)"
proof -
  have "c * c + r * r \<noteq> 0" using assms(1) by (simp add: add_nonneg_eq_0_iff)
  then have d: "Num c * Num c + Num r * Num r \<noteq> Num 0" by simp
  show ?thesis
    using assms(2) d unfolding gaussianTerm_def peaks_def Let_def
    by (auto intro!: isFinite_intros)
qed

lemma saddleTerm_finite:
  assumes "c \<noteq> 0" "r \<noteq> 0" "sd \<in> set (saddlePoints (Num c) (Num r))"
  shows "isFinite (saddleTerm (Num c) (Num r) (Num i) (Num j) sd)" 
  using assms unfolding saddleTerm_def saddlePoints_def Let_def Math_pow2_def
  by (auto intro!: isFinite_intros)

lemma foldl_finite:
  assumes "\<And>x. x \<in> set xs \<Longrightarrow> isFinite (f x)" "isFinite a"
  shows "isFinite (foldl (\<lambda>acc x. acc + f x) a xs)"
  using assms by (induction xs arbitrary: a) (simp_all add: isFinite_add)

lemma add_not_NaN: "isFinite a \<Longrightarrow> b \<noteq> NaN \<Longrightarrow> a + b \<noteq> NaN"
  and add_not_NaN2: "isFinite a \<Longrightarrow> b \<noteq> NaN \<Longrightarrow> b + a \<noteq> NaN"
  by (cases b; auto simp: isFinite_iff)+

lemma mult_pos_not_NaN: "b \<noteq> NaN \<Longrightarrow> 0 < a \<Longrightarrow> b * Num a \<noteq> NaN"
  by (cases b) (simp_all add: signed_infinity_def)

lemma cellValue_unit:
  assumes "c \<noteq> 0" "r \<noteq> 0" "boxMullerTransform (rnd k) (rnd (k + 1)) \<noteq> NaN"
  shows "in_unit (cellValue (Num c) (Num r) (Num i) (Num j) rnd k)"
proof -
  have g: "isFinite (foldl (\<lambda>acc pk. acc + gaussianTerm (Num c) (Num r) (Num i) (Num j) pk) (Num 0) (peaks (Num c) (Num r)))"
    using assms by (intro foldl_finite gaussianTerm_finite) simp_all
  have s: "isFinite (foldl (\<lambda>acc sd. acc + saddleTerm (Num c) (Num r) (Num i) (Num j) sd) (Num 0) (saddlePoints (Num c) (Num r)))"
    using assms by (intro foldl_finite saddleTerm_finite) simp_all
  show ?thesis
    unfolding cellValue_def Let_def
    using g s assms(3)
    by (intro clamp_unit add_not_NaN2 add_not_NaN mult_pos_not_NaN isFinite_intros) simp_all
qed

lemma boxMuller_finite:
  assumes "0 < u1" "u1 \<le> 1"
  shows "boxMullerTransform u1 u2 = Num (sqrt (- 2 * ln u1) * cos (2 * pi * u2))"
proof -
  have "ln u1 \<le> 0" using assms by simp
  then have "\<not> (- 2 * ln u1 < 0)" by simp
  then show ?thesis
    using assms by (simp add: boxMullerTransform_def Math_PI_def)
qed

text \<open>NaN is absorbing, compares false, and passes through \<^verbatim>\<open>Math.max\<close> and \<^verbatim>\<open>Math.min\<close>.\<close>

lemma signed_infinity_zero: "signed_infinity 0 = NaN"
  by (simp add: signed_infinity_def)

lemma NaN_arith:
  "NaN + v = NaN" "v + NaN = NaN" "NaN * v = NaN" "v * NaN = NaN" "NaN / v = NaN" "v / NaN = NaN"
  "NaN - v = NaN" "v - NaN = NaN" "- NaN = NaN"
  by (cases v; simp add: minus_jsnum_def signed_infinity_def)+

lemma NaN_compare: "\<not> v < NaN" "\<not> NaN < v"
  by (cases v; simp)+

lemma NaN_minmax:
  "Math_max NaN v = NaN" "Math_max v NaN = NaN" "Math_min NaN v = NaN" "Math_min v NaN = NaN"
  by (cases v; simp)+

lemmas NaN_simps = signed_infinity_zero NaN_arith NaN_compare NaN_minmax



lemma boxMuller_at_zero: "boxMullerTransform 0 0 = PosInfinity"
  by (simp add: boxMullerTransform_def Math_PI_def signed_infinity_def)

text \<open>What the predicates on the size of the inputs give.\<close>

lemma in_unit_finite: "in_unit v \<Longrightarrow> isFinite v"
  by (cases v) (simp_all add: in_unit_def)

lemma unit_grid_finite: "unit_grid g \<Longrightarrow> finite_grid g"
  by (simp add: unit_grid_def finite_grid_def in_unit_finite)

lemma moderate_finite: "moderate v \<Longrightarrow> isFinite v"
  by (cases v) (simp_all add: moderate_def)

lemma moderate_position_finite: "moderate_position p \<Longrightarrow> finite_position p"
  by (simp add: moderate_position_def finite_position_def moderate_finite)

lemma strength_iff: "strength v \<longleftrightarrow> (\<exists>r. v = Num r \<and> 1 / 10 ^ 100 \<le> r \<and> r \<le> 10 ^ 100)"
  by (cases v) (simp_all add: strength_def)

lemma strength_positive: "strength (Num r) \<Longrightarrow> 0 < r"
proof -
  assume "strength (Num r)"
  then have "1 / 10 ^ 100 \<le> r" by (simp add: strength_def)
  moreover have "(0::real) < 1 / 10 ^ 100" by simp
  ultimately show "0 < r" by linarith
qed

section \<open>The smoothing pass keeps the unit interval\<close>

lemma rectangular_nth: "rectangular rows cols g \<Longrightarrow> i < rows \<Longrightarrow> length (g ! i) = cols"
  by (simp add: rectangular_def)

lemma grid_cell_in: "rectangular rows cols g \<Longrightarrow> i < rows \<Longrightarrow> j < cols \<Longrightarrow> grid_cell g i j = g ! i ! j"
  by (simp add: grid_cell_def rectangular_def)

lemma unit_grid_cell:
  "rectangular rows cols g \<Longrightarrow> unit_grid g \<Longrightarrow> i < rows \<Longrightarrow> j < cols \<Longrightarrow> in_unit (grid_cell g i j)"
proof -
  assume a: "rectangular rows cols g" "unit_grid g" "i < rows" "j < cols"
  then have "g ! i \<in> set g" by (simp add: rectangular_def)
  moreover have "length (g ! i) = cols" using a by (simp add: rectangular_def)
  ultimately have "g ! i ! j \<in> set (g ! i)" "\<forall>v \<in> set (g ! i). in_unit v"
    using a by (simp_all add: unit_grid_def)
  then show ?thesis using a by (simp add: grid_cell_in)
qed

lemma grid_set_rectangular:
  assumes "rectangular rows cols g" "i < rows" "j < cols"
  shows "rectangular rows cols (grid_set g i j v)"
  using assms
  by (auto simp: rectangular_def grid_set_def array_set_def dest!: set_update_subset_insert[THEN subsetD])

lemma grid_set_unit:
  assumes "rectangular rows cols g" "unit_grid g" "i < rows" "j < cols" "in_unit v"
  shows "unit_grid (grid_set g i j v)"
  using assms
  by (auto simp: rectangular_def unit_grid_def grid_set_def array_set_def
      dest!: set_update_subset_insert[THEN subsetD])

lemma grid_cell_set:
  assumes "rectangular rows cols g" "i < rows" "j < cols"
  shows "grid_cell (grid_set g i j v) i' j' = (if i' = i \<and> j' = j then v else grid_cell g i' j')"
  using assms
  by (auto simp: rectangular_def grid_set_def grid_cell_def array_set_def nth_list_update)

lemma smoothCell_inv:
  assumes "rectangular rows cols g" "unit_grid g" "1 \<le> i" "i + 1 < rows" "1 \<le> j" "j + 1 < cols"
  shows "rectangular rows cols (smoothCell g i j) \<and> unit_grid (smoothCell g i j)"
  unfolding smoothCell_def
  using assms
  by (intro conjI grid_set_rectangular grid_set_unit gibbsUpdate_unit unit_grid_cell[OF assms(1,2)]) auto

lemma foldl_invariant:
  assumes "P s" "\<And>t x. P t \<Longrightarrow> x \<in> set xs \<Longrightarrow> P (f t x)"
  shows "P (foldl f s xs)"
  using assms by (induction xs arbitrary: s) simp_all

lemma smoothRow_inv:
  assumes "rectangular rows cols g" "unit_grid g" "1 \<le> i" "i + 1 < rows"
  shows "rectangular rows cols (smoothRow g i cols) \<and> unit_grid (smoothRow g i cols)"
  unfolding smoothRow_def
  by (rule foldl_invariant[where P = "\<lambda>g. rectangular rows cols g \<and> unit_grid g"])
     (use assms in \<open>auto intro: smoothCell_inv[THEN conjunct1] smoothCell_inv[THEN conjunct2]\<close>)

lemma smoothPass_inv:
  assumes "rectangular rows cols g" "unit_grid g"
  shows "rectangular rows cols (smoothPass rows cols g) \<and> unit_grid (smoothPass rows cols g)"
  unfolding smoothPass_def
  by (rule foldl_invariant[where P = "\<lambda>g. rectangular rows cols g \<and> unit_grid g"])
     (use assms in \<open>auto intro: smoothRow_inv[THEN conjunct1] smoothRow_inv[THEN conjunct2]\<close>)

lemma smoothPass_funpow_inv:
  assumes "rectangular rows cols g" "unit_grid g"
  shows "rectangular rows cols ((smoothPass rows cols ^^ n) g) \<and> unit_grid ((smoothPass rows cols ^^ n) g)"
  using assms by (induction n) (simp_all add: smoothPass_inv)

lemma jsonCopy_unit: "unit_grid g \<Longrightarrow> jsonCopy g = g"
proof -
  assume u: "unit_grid g"
  have "(case v of Num x \<Rightarrow> Num x | _ \<Rightarrow> Num 0) = v" if "r \<in> set g" "v \<in> set r" for r v
  proof -
    have "in_unit v" using u that by (simp add: unit_grid_def)
    then show ?thesis by (auto simp: in_unit_iff)
  qed
  then show ?thesis unfolding jsonCopy_def by (intro map_idI) simp
qed

lemma gibbsSmoothingPass_unit:
  assumes "rectangular rows cols g" "unit_grid g" "gibbsSmoothingPass g n = Inr h"
  shows "rectangular rows cols h \<and> unit_grid h"
proof (cases g)
  case Nil
  with assms(3) show ?thesis by (simp add: gibbsSmoothingPass_def)
next
  case (Cons row0 rest)
  have c: "length row0 = cols" and r: "length g = rows"
    using assms(1) Cons by (auto simp: rectangular_def)
  have "h = (smoothPass rows cols ^^ n) g"
    using assms(3) Cons c r jsonCopy_unit[OF assms(2)]
    by (simp add: gibbsSmoothingPass_def Let_def del: funpow.simps)
  then show ?thesis using smoothPass_funpow_inv[OF assms(1,2)] by simp
qed

section \<open>What one smoothing pass computes\<close>

lemma smoothCell_rect:
  assumes "rectangular rows cols g" "i < rows" "j < cols"
  shows "rectangular rows cols (smoothCell g i j)"
  unfolding smoothCell_def using assms by (rule grid_set_rectangular)

lemma grid_cell_smoothCell:
  assumes "rectangular rows cols g" "i < rows" "j < cols"
  shows "grid_cell (smoothCell g i j) i' j' =
           (if i' = i \<and> j' = j
            then gibbsUpdate (grid_cell g (i - 1) j) (grid_cell g (i + 1) j)
                   (grid_cell g i (j - 1)) (grid_cell g i (j + 1)) (grid_cell g i j)
            else grid_cell g i' j')"
  unfolding smoothCell_def by (rule grid_cell_set[OF assms])

text \<open>The row loop, stopped before column \<open>n\<close>.\<close>

lemma smoothRow_prefix:
  assumes c: "rectangular rows cols c" and i: "1 \<le> i" "i + 1 < rows" and n: "n + 1 \<le> cols"
  defines "h \<equiv> foldl (\<lambda>g j. smoothCell g i j) c [1..<n]"
  shows "rectangular rows cols h
       \<and> (\<forall>i' j'. i' \<noteq> i \<or> j' = 0 \<or> n \<le> j' \<longrightarrow> grid_cell h i' j' = grid_cell c i' j')
       \<and> (\<forall>j'. 1 \<le> j' \<and> j' < n \<longrightarrow>
             grid_cell h i j' = gibbsUpdate (grid_cell c (i - 1) j') (grid_cell c (i + 1) j')
                                  (grid_cell h i (j' - 1)) (grid_cell c i (j' + 1)) (grid_cell c i j'))"
  using n unfolding h_def
proof (induction n)
  case 0
  then show ?case using c by simp
next
  case (Suc n)
  show ?case
  proof (cases "n = 0")
    case True
    then show ?thesis using c by simp
  next
    case False
    define h where "h = foldl (\<lambda>g j. smoothCell g i j) c [1..<n]"
    have ih: "rectangular rows cols h"
      "\<And>i' j'. i' \<noteq> i \<or> j' = 0 \<or> n \<le> j' \<Longrightarrow> grid_cell h i' j' = grid_cell c i' j'"
      "\<And>j'. 1 \<le> j' \<Longrightarrow> j' < n \<Longrightarrow>
             grid_cell h i j' = gibbsUpdate (grid_cell c (i - 1) j') (grid_cell c (i + 1) j')
                                  (grid_cell h i (j' - 1)) (grid_cell c i (j' + 1)) (grid_cell c i j')"
      using Suc unfolding h_def by auto
    have step: "foldl (\<lambda>g j. smoothCell g i j) c [1..<Suc n] = smoothCell h i n"
      using False by (simp add: h_def)
    have in_range: "i < rows" "n < cols" using i Suc.prems by auto
    note gc = grid_cell_smoothCell[OF ih(1) in_range]
    have v: "gibbsUpdate (grid_cell h (i - 1) n) (grid_cell h (i + 1) n)
                   (grid_cell h i (n - 1)) (grid_cell h i (n + 1)) (grid_cell h i n)
           = gibbsUpdate (grid_cell c (i - 1) n) (grid_cell c (i + 1) n)
                   (grid_cell h i (n - 1)) (grid_cell c i (n + 1)) (grid_cell c i n)"
      using i by (simp add: ih(2))
    show ?thesis
      unfolding step
    proof (intro conjI allI impI)
      show "rectangular rows cols (smoothCell h i n)"
        by (rule smoothCell_rect[OF ih(1) in_range])
    next
      fix i' j' assume "i' \<noteq> i \<or> j' = 0 \<or> Suc n \<le> j'"
      then show "grid_cell (smoothCell h i n) i' j' = grid_cell c i' j'"
        using False by (auto simp: gc ih(2))
    next
      fix j' assume j': "1 \<le> j' \<and> j' < Suc n"
      show "grid_cell (smoothCell h i n) i j' =
              gibbsUpdate (grid_cell c (i - 1) j') (grid_cell c (i + 1) j')
                (grid_cell (smoothCell h i n) i (j' - 1)) (grid_cell c i (j' + 1)) (grid_cell c i j')"
      proof (cases "j' = n")
        case True
        moreover have "n - Suc 0 \<noteq> n" using False by simp
        ultimately show ?thesis using v by (simp add: gc)
      next
        case F: False
        then have "j' < n" using j' by simp
        moreover from this have "j' - Suc 0 \<noteq> n" by simp
        ultimately show ?thesis using j' F ih(3)[of j'] by (simp add: gc)
      qed
    qed
  qed
qed

lemma smoothRow_spec:
  assumes c: "rectangular rows cols c" and i: "1 \<le> i" "i + 1 < rows"
  defines "h \<equiv> smoothRow c i cols"
  shows "rectangular rows cols h"
    and "\<And>i' j'. i' \<noteq> i \<or> j' = 0 \<or> cols \<le> j' + 1 \<Longrightarrow> grid_cell h i' j' = grid_cell c i' j'"
    and "\<And>j'. 1 \<le> j' \<Longrightarrow> j' + 1 < cols \<Longrightarrow>
             grid_cell h i j' = gibbsUpdate (grid_cell c (i - 1) j') (grid_cell c (i + 1) j')
                                  (grid_cell h i (j' - 1)) (grid_cell c i (j' + 1)) (grid_cell c i j')"
proof -
  have eq: "h = c" if "cols = 0"
    using that by (simp add: h_def smoothRow_def)
  have n: "(cols - 1) + 1 \<le> cols" if "cols \<noteq> 0"
    using that by simp
  note p = smoothRow_prefix[OF c i n, folded smoothRow_def h_def]
  show "rectangular rows cols h"
    using eq c p by (cases "cols = 0") simp_all
  show "grid_cell h i' j' = grid_cell c i' j'" if "i' \<noteq> i \<or> j' = 0 \<or> cols \<le> j' + 1" for i' j'
  proof (cases "cols = 0")
    case True
    then show ?thesis by (simp add: eq)
  next
    case False
    from that have "i' \<noteq> i \<or> j' = 0 \<or> cols - 1 \<le> j'" by auto
    then show ?thesis using p[OF False, THEN conjunct2, THEN conjunct1] by blast
  qed
  show "grid_cell h i j' = gibbsUpdate (grid_cell c (i - 1) j') (grid_cell c (i + 1) j')
                                  (grid_cell h i (j' - 1)) (grid_cell c i (j' + 1)) (grid_cell c i j')"
    if "1 \<le> j'" "j' + 1 < cols" for j'
  proof -
    have nz: "cols \<noteq> 0" and "1 \<le> j' \<and> j' < cols - 1" using that by auto
    then show ?thesis using p[OF nz, THEN conjunct2, THEN conjunct2] by blast
  qed
qed

lemma smoothPass_prefix:
  assumes c: "rectangular rows cols c" and m: "m + 1 \<le> rows"
  defines "h \<equiv> foldl (\<lambda>g i. smoothRow g i cols) c [1..<m]"
  shows "rectangular rows cols h
       \<and> (\<forall>i' j'. i' = 0 \<or> m \<le> i' \<or> j' = 0 \<or> cols \<le> j' + 1 \<longrightarrow> grid_cell h i' j' = grid_cell c i' j')
       \<and> (\<forall>i' j'. 1 \<le> i' \<and> i' < m \<and> 1 \<le> j' \<and> j' + 1 < cols \<longrightarrow>
             grid_cell h i' j' = gibbsUpdate (grid_cell h (i' - 1) j') (grid_cell c (i' + 1) j')
                                  (grid_cell h i' (j' - 1)) (grid_cell c i' (j' + 1)) (grid_cell c i' j'))"
  using m unfolding h_def
proof (induction m)
  case 0
  then show ?case using c by simp
next
  case (Suc m)
  show ?case
  proof (cases "m = 0")
    case True
    then show ?thesis using c by simp
  next
    case False
    define h where "h = foldl (\<lambda>g i. smoothRow g i cols) c [1..<m]"
    have ih: "rectangular rows cols h"
      "\<And>i' j'. i' = 0 \<or> m \<le> i' \<or> j' = 0 \<or> cols \<le> j' + 1 \<Longrightarrow> grid_cell h i' j' = grid_cell c i' j'"
      "\<And>i' j'. 1 \<le> i' \<Longrightarrow> i' < m \<Longrightarrow> 1 \<le> j' \<Longrightarrow> j' + 1 < cols \<Longrightarrow>
             grid_cell h i' j' = gibbsUpdate (grid_cell h (i' - 1) j') (grid_cell c (i' + 1) j')
                                  (grid_cell h i' (j' - 1)) (grid_cell c i' (j' + 1)) (grid_cell c i' j')"
      using Suc unfolding h_def by auto
    define h' where "h' = smoothRow h m cols"
    have step: "foldl (\<lambda>g i. smoothRow g i cols) c [1..<Suc m] = h'"
      using False by (simp add: h_def h'_def)
    have mr: "1 \<le> m" "m + 1 < rows" using False Suc.prems by auto
    note row = smoothRow_spec[OF ih(1) mr, folded h'_def]
    show ?thesis
      unfolding step
    proof (intro conjI allI impI)
      show "rectangular rows cols h'" by (rule row(1))
    next
      fix i' j' assume a: "i' = 0 \<or> Suc m \<le> i' \<or> j' = 0 \<or> cols \<le> j' + 1"
      then have "grid_cell h' i' j' = grid_cell h i' j'"
        using mr by (intro row(2)) auto
      also have "\<dots> = grid_cell c i' j'"
        using a mr by (intro ih(2)) auto
      finally show "grid_cell h' i' j' = grid_cell c i' j'" .
    next
      fix i' j' assume a: "1 \<le> i' \<and> i' < Suc m \<and> 1 \<le> j' \<and> j' + 1 < cols"
      show "grid_cell h' i' j' = gibbsUpdate (grid_cell h' (i' - 1) j') (grid_cell c (i' + 1) j')
                                  (grid_cell h' i' (j' - 1)) (grid_cell c i' (j' + 1)) (grid_cell c i' j')"
      proof (cases "i' = m")
        case True
        have "grid_cell h' m j' = gibbsUpdate (grid_cell h (m - 1) j') (grid_cell h (m + 1) j')
                                  (grid_cell h' m (j' - 1)) (grid_cell h m (j' + 1)) (grid_cell h m j')"
          using a by (intro row(3)) auto
        moreover have "grid_cell h (m - 1) j' = grid_cell h' (m - 1) j'"
          using mr by (intro row(2)[symmetric]) auto
        moreover have "grid_cell h (m + 1) j' = grid_cell c (m + 1) j'"
          "grid_cell h m (j' + 1) = grid_cell c m (j' + 1)" "grid_cell h m j' = grid_cell c m j'"
          by (intro ih(2); simp)+
        ultimately show ?thesis using True by simp
      next
        case F: False
        then have lt: "i' < m" using a by simp
        have "grid_cell h' i' j' = grid_cell h i' j'"
          using F by (intro row(2)) auto
        moreover have "grid_cell h' (i' - 1) j' = grid_cell h (i' - 1) j'"
          using lt by (intro row(2)) auto
        moreover have "grid_cell h' i' (j' - 1) = grid_cell h i' (j' - 1)"
          using lt by (intro row(2)) auto
        ultimately show ?thesis using ih(3)[of i' j'] a lt by simp
      qed
    qed
  qed
qed

lemma smoothPass_cells:
  assumes "rectangular rows cols c"
  shows "rectangular rows cols (smoothPass rows cols c)
       \<and> (\<forall>i j. grid_cell (smoothPass rows cols c) i j =
             (if interior rows cols i j
              then gibbsUpdate (grid_cell (smoothPass rows cols c) (i - 1) j) (grid_cell c (i + 1) j)
                     (grid_cell (smoothPass rows cols c) i (j - 1)) (grid_cell c i (j + 1))
                     (grid_cell c i j)
              else grid_cell c i j))"
proof (cases "rows = 0")
  case True
  then show ?thesis using assms by (simp add: smoothPass_def interior_def)
next
  case False
  then have m: "(rows - 1) + 1 \<le> rows" by simp
  note p = smoothPass_prefix[OF assms m, folded smoothPass_def]
  show ?thesis
  proof (intro conjI allI)
    show "rectangular rows cols (smoothPass rows cols c)" using p by simp
  next
    fix i j
    show "grid_cell (smoothPass rows cols c) i j =
             (if interior rows cols i j
              then gibbsUpdate (grid_cell (smoothPass rows cols c) (i - 1) j) (grid_cell c (i + 1) j)
                     (grid_cell (smoothPass rows cols c) i (j - 1)) (grid_cell c i (j + 1))
                     (grid_cell c i j)
              else grid_cell c i j)"
    proof (cases "interior rows cols i j")
      case True
      then have "1 \<le> i \<and> i < rows - 1 \<and> 1 \<le> j \<and> j + 1 < cols"
        by (auto simp: interior_def)
      then have "grid_cell (smoothPass rows cols c) i j =
                   gibbsUpdate (grid_cell (smoothPass rows cols c) (i - 1) j) (grid_cell c (i + 1) j)
                     (grid_cell (smoothPass rows cols c) i (j - 1)) (grid_cell c i (j + 1))
                     (grid_cell c i j)"
        using p[THEN conjunct2, THEN conjunct2] by blast
      with True show ?thesis by simp
    next
      case F: False
      then have "i = 0 \<or> rows - 1 \<le> i \<or> j = 0 \<or> cols \<le> j + 1"
        by (auto simp: interior_def)
      then have "grid_cell (smoothPass rows cols c) i j = grid_cell c i j"
        using p[THEN conjunct2, THEN conjunct1] by blast
      with F show ?thesis by simp
    qed
  qed
qed

lemma snap_cell: "grid_cell (snapshotSmoothingPass bump_grid) 1 2 = Num (1 / 4)"
  by (simp add: snapshotSmoothingPass_def bump_grid_def grid_cell_def interior_def gibbsUpdate_def upt_rec)

lemma rect_bump: "rectangular 3 4 bump_grid"
  by (simp add: rectangular_def bump_grid_def)

lemma jsonCopy_bump: "jsonCopy bump_grid = bump_grid"
  by (simp add: jsonCopy_def bump_grid_def)

lemma gibbsSmoothingPass_rect_eq:
  assumes "rectangular rows cols g" "0 < rows"
  shows "gibbsSmoothingPass g n = Inr ((smoothPass rows cols ^^ n) (jsonCopy g))"
proof (cases g)
  case Nil
  then show ?thesis using assms by (simp add: rectangular_def)
next
  case (Cons row0 rest)
  then have "length row0 = cols" "length g = rows"
    using assms(1) by (auto simp: rectangular_def)
  then show ?thesis using Cons
    by (simp add: gibbsSmoothingPass_def Let_def del: funpow.simps)
qed

lemma inplace_cell: "grid_cell (smoothPass 3 4 bump_grid) 1 2 \<noteq> Num (1 / 4)"
proof -
  define h where "h = smoothPass 3 4 bump_grid"
  note p = smoothPass_cells[OF rect_bump, THEN conjunct2, rule_format, folded h_def]
  have b: "grid_cell h 0 1 = Num 0" "grid_cell h 1 0 = Num 0" "grid_cell h 0 2 = Num 0"
    using p[of 0 1] p[of 1 0] p[of 0 2]
    by (simp_all add: interior_def bump_grid_def grid_cell_def)
  define w :: real where "w = exp (- (75 / 16))"
  have w: "0 < w" by (simp add: w_def)
  have "grid_cell h 1 1 = gibbsUpdate (Num 0) (Num 0) (Num 0) (Num (1 / 4)) (Num 1)"
    using p[of 1 1] b by (simp add: interior_def bump_grid_def grid_cell_def)
  also have "\<dots> = Num (1 - w * 15 / 16)"
    by (simp add: gibbsUpdate_def w_def algebra_simps)
  finally have c11: "grid_cell h 1 1 = Num (1 - w * 15 / 16)" .
  define w2 :: real where "w2 = exp (- \<bar>1 / 4 - (1 - w * 15 / 16) / 4\<bar> / (1 / 5))"
  have w2: "0 < w2" by (simp add: w2_def)
  have "grid_cell h 1 2 = gibbsUpdate (Num 0) (Num 0) (Num (1 - w * 15 / 16)) (Num 0) (Num (1 / 4))"
    using p[of 1 2] b c11 by (simp add: interior_def bump_grid_def grid_cell_def)
  also have "\<dots> = Num (w2 * ((1 - w * 15 / 16) / 4) + (1 - w2) * (1 / 4))"
    by (simp add: gibbsUpdate_def w2_def)
  also have "w2 * ((1 - w * 15 / 16) / 4) + (1 - w2) * (1 / 4) = 1 / 4 - w2 * w * (15 / 64)"
    by (simp add: field_simps)
  finally have "grid_cell h 1 2 = Num (1 / 4 - w2 * w * (15 / 64))" .
  moreover have "w2 \<noteq> 0" "w \<noteq> 0" using w w2 by simp_all
  ultimately show ?thesis unfolding h_def by simp
qed


text \<open>
  C6 (as the code has it). A pass works in place on the one buffer: the new value of an
  interior cell is computed from its upper and left neighbours as the pass has already left
  them (updated, or on the untouched ring) and from its lower and right neighbours and
  itself as they were before the pass, so the result depends on the row-by-row order of the
  loops. The outermost ring is left untouched and the shape is kept.
\<close>

theorem smoothPass_in_place:
  assumes "rectangular rows cols c"
  shows "rectangular rows cols (smoothPass rows cols c)
       \<and> (\<forall>i j. grid_cell (smoothPass rows cols c) i j =
             (if interior rows cols i j
              then gibbsUpdate (grid_cell (smoothPass rows cols c) (i - 1) j) (grid_cell c (i + 1) j)
                     (grid_cell (smoothPass rows cols c) i (j - 1)) (grid_cell c i (j + 1))
                     (grid_cell c i j)
              else grid_cell c i j))"
  using assms by (rule smoothPass_cells)

theorem smoothPass_in_place_witness:
  "rectangular 3 4 bump_grid
   \<and> rectangular 3 4 (smoothPass 3 4 bump_grid)
   \<and> grid_cell (smoothPass 3 4 bump_grid) 1 0 = Num 0"
proof -
  note p = smoothPass_in_place[OF rect_bump]
  have "grid_cell (smoothPass 3 4 bump_grid) 1 0 = grid_cell bump_grid 1 0"
    using p[THEN conjunct2, rule_format, of 1 0] by (simp add: interior_def)
  also have "\<dots> = Num 0"
    by (simp add: bump_grid_def grid_cell_def)
  finally show ?thesis
    using p[THEN conjunct1] rect_bump by simp
qed

text \<open>
  C6 (as stated) fails: on the grid \<open>bump_grid\<close> the pass of the code and the pass computed
  from a snapshot differ, at the cell \<open>(1, 2)\<close>, whose left neighbour the code has already
  updated.
\<close>

theorem snapshot_counterexample:
  "gibbsSmoothingPass bump_grid 1 \<noteq> Inr (snapshotSmoothingPass bump_grid)"
proof
  assume "gibbsSmoothingPass bump_grid 1 = Inr (snapshotSmoothingPass bump_grid)"
  moreover have "gibbsSmoothingPass bump_grid 1 = Inr (smoothPass 3 4 bump_grid)"
    using gibbsSmoothingPass_rect_eq[OF rect_bump, of 1] by (simp add: jsonCopy_bump)
  ultimately have "smoothPass 3 4 bump_grid = snapshotSmoothingPass bump_grid" by simp
  then show False using inplace_cell snap_cell by simp
qed


section \<open>Generated landscapes\<close>

lemma new_Array_Inr: "new_Array v = Inr n \<Longrightarrow> v = Num (real n)"
  by (cases v) (auto simp: new_Array_def array_index_def split: if_splits)

lemma initialGrid_rect: "rectangular nrows ncols (initialGrid c r nrows ncols rnd)"
  by (auto simp: rectangular_def initialGrid_def)

lemma initialGrid_unit:
  assumes "\<And>k. boxMullerTransform (rnd (3 * k)) (rnd (3 * k + 1)) \<noteq> NaN"
  shows "unit_grid (initialGrid (Num (real ncols)) (Num (real nrows)) nrows ncols rnd)"
proof -
  have "in_unit (cellValue (Num (real ncols)) (Num (real nrows)) (Num (real i)) (Num (real j)) rnd
                   (3 * (i * ncols + j)))" if "i < nrows" "j < ncols" for i j
    using that by (intro cellValue_unit assms) simp_all
  then show ?thesis
    unfolding unit_grid_def initialGrid_def by auto
qed

lemma generate_cases:
  "generateLossLandscape width height resolution rnd =
     (case new_Array (Math_floor (height / resolution)) of
        Inl e \<Rightarrow> Inl e
      | Inr nrows \<Rightarrow>
          if nrows = 0 then Inl TypeError
          else (case new_Array (Math_floor (width / resolution)) of
                  Inl e \<Rightarrow> Inl e
                | Inr ncols \<Rightarrow>
                    gibbsSmoothingPass (initialGrid (Num (real ncols)) (Num (real nrows)) nrows ncols rnd) 1))"
proof (cases "new_Array (Math_floor (height / resolution))")
  case (Inl e)
  then show ?thesis by (simp add: generateLossLandscape_def Let_def)
next
  case (Inr nrows)
  note r = new_Array_Inr[OF Inr]
  show ?thesis
  proof (cases "new_Array (Math_floor (width / resolution))")
    case (Inl e)
    then show ?thesis using Inr
      by (simp add: generateLossLandscape_def Let_def gibbsSmoothingPass_def)
  next
    case c: (Inr ncols)
    have h: "Math_floor (height / resolution) = Num (real nrows)"
      and w: "Math_floor (width / resolution) = Num (real ncols)"
      using r new_Array_Inr[OF c] by simp_all
    have a: "new_Array (Num (real nrows)) = Inr nrows" "new_Array (Num (real ncols)) = Inr ncols"
      using Inr c h w by simp_all
    show ?thesis
      by (simp add: generateLossLandscape_def Let_def h w a initialGrid_def gibbsSmoothingPass_def
          del: funpow.simps)
  qed
qed

lemma gibbsSmoothingPass_returns: "g \<noteq> [] \<Longrightarrow> isl (gibbsSmoothingPass g n) = False"
  by (cases g) (simp_all add: gibbsSmoothingPass_def Let_def del: funpow.simps)

lemma initialGrid_nonempty: "0 < nrows \<Longrightarrow> initialGrid c r nrows ncols rnd \<noteq> []"
  by (simp add: initialGrid_def)

lemma new_Array_nat: "n < 2 ^ 32 \<Longrightarrow> new_Array (Num (real n)) = Inr n"
  by (simp add: new_Array_def array_index_def)

lemma not_isl_Inr: "\<not> isl v \<Longrightarrow> v = Inr (projr v)"
  by (cases v) simp_all

lemma generate_15: "\<not> isl (generateLossLandscape (Num 15) (Num 15) (Num 5) (constant_draws (1 / 2)))"
proof -
  have f: "Math_floor (Num 15 / Num 5) = Num (real 3)" by simp
  have a: "new_Array (Num (real 3)) = Inr 3" by (rule new_Array_nat) simp
  show ?thesis
    unfolding generate_cases f a
    by (simp add: gibbsSmoothingPass_returns initialGrid_nonempty)
qed


lemma jsonCopy_rect: "rectangular rows cols g \<Longrightarrow> rectangular rows cols (jsonCopy g)"
  by (auto simp: rectangular_def jsonCopy_def)

lemma smoothPass_funpow_rect:
  "rectangular rows cols g \<Longrightarrow> rectangular rows cols ((smoothPass rows cols ^^ n) g)"
  by (induction n) (simp_all add: smoothPass_in_place)

lemma gibbsSmoothingPass_rect:
  assumes "rectangular rows cols g" "0 < rows"
  shows "\<not> isl (gibbsSmoothingPass g n) \<and> rectangular rows cols (projr (gibbsSmoothingPass g n))"
  using smoothPass_funpow_rect[OF jsonCopy_rect[OF assms(1)], of n]
  by (simp add: gibbsSmoothingPass_rect_eq[OF assms] del: funpow.simps)

lemma new_Array_Inl: "new_Array v = Inl e \<Longrightarrow> e = RangeError"
  by (auto simp: new_Array_def split: option.splits if_splits)

lemma generate_dims:
  "(case new_Array (Math_floor (height / resolution)) of
      Inl e \<Rightarrow> generateLossLandscape width height resolution rnd = Inl RangeError
    | Inr nrows \<Rightarrow>
        (if nrows = 0 then generateLossLandscape width height resolution rnd = Inl TypeError
         else (case new_Array (Math_floor (width / resolution)) of
                 Inl e \<Rightarrow> generateLossLandscape width height resolution rnd = Inl RangeError
               | Inr ncols \<Rightarrow>
                   \<not> isl (generateLossLandscape width height resolution rnd)
                   \<and> rectangular nrows ncols
                       (projr (generateLossLandscape width height resolution rnd)))))"
  unfolding generate_cases[of width height resolution rnd]
  by (auto split: sum.splits dest: new_Array_Inl
      simp: gibbsSmoothingPass_rect[OF initialGrid_rect])


text \<open>
  C1. Every cell of a grid returned by \<^verbatim>\<open>generateLossLandscape\<close> is a number in \<open>[0, 1]\<close>,
  whatever the dimensions and the draws, as long as no sample of the normal generator is NaN
  (an infinite sample is clamped like any other): each cell is clamped when it is made, and
  the smoothing pass replaces a cell by a convex combination of values in \<open>[0, 1]\<close>.
\<close>

theorem generateLossLandscape_unit:
  assumes "generateLossLandscape width height resolution rnd = Inr g"
    and "\<And>k. boxMullerTransform (rnd (3 * k)) (rnd (3 * k + 1)) \<noteq> NaN"
  shows "unit_grid g"
  using assms(1) gibbsSmoothingPass_unit[OF initialGrid_rect initialGrid_unit[of rnd], OF assms(2)]
  unfolding generate_cases
  by (auto split: sum.splits if_splits)


theorem generateLossLandscape_unit_witness:
  "\<not> isl (generateLossLandscape (Num 15) (Num 15) (Num 5) (constant_draws (1 / 2)))
   \<and> unit_grid (projr (generateLossLandscape (Num 15) (Num 15) (Num 5) (constant_draws (1 / 2))))"
proof -
  have s: "boxMullerTransform (constant_draws (1 / 2) (3 * k)) (constant_draws (1 / 2) (3 * k + 1)) \<noteq> NaN" for k
    by (simp add: constant_draws_def boxMuller_finite)
  show ?thesis
    using generateLossLandscape_unit[OF not_isl_Inr[OF generate_15] s] generate_15 by simp
qed


text \<open>
  C5 (as the code has it). \<^verbatim>\<open>generateLossLandscape\<close> checks no dimension and knows no
  InvalidDimension error. With \<open>rows = floor(height / resolution)\<close> and
  \<open>cols = floor(width / resolution)\<close>: it throws a RangeError when \<open>rows\<close> is not an array
  length, a TypeError (from the smoothing pass) when \<open>rows\<close> is 0, a RangeError when there is
  a row and \<open>cols\<close> is not an array length, and in every other case, fewer than 3 rows or
  columns included, it returns a grid of \<open>rows\<close> rows and \<open>cols\<close> columns.
\<close>

theorem generateLossLandscape_dimensions:
  "(case new_Array (Math_floor (height / resolution)) of
      Inl e \<Rightarrow> generateLossLandscape width height resolution rnd = Inl RangeError
    | Inr nrows \<Rightarrow>
        (if nrows = 0 then generateLossLandscape width height resolution rnd = Inl TypeError
         else (case new_Array (Math_floor (width / resolution)) of
                 Inl e \<Rightarrow> generateLossLandscape width height resolution rnd = Inl RangeError
               | Inr ncols \<Rightarrow>
                   \<not> isl (generateLossLandscape width height resolution rnd)
                   \<and> rectangular nrows ncols
                       (projr (generateLossLandscape width height resolution rnd)))))"
  by (rule generate_dims)

theorem generateLossLandscape_dimensions_witness:
  "\<not> isl (generateLossLandscape (Num 10) (Num 15) (Num 5) (constant_draws (1 / 2)))
   \<and> rectangular 3 2 (projr (generateLossLandscape (Num 10) (Num 15) (Num 5) (constant_draws (1 / 2))))"
proof -
  have f: "Math_floor (Num 10 / Num 5) = Num (real 2)" "Math_floor (Num 15 / Num 5) = Num (real 3)"
    by simp_all
  have a: "new_Array (Num (real 2)) = Inr 2" "new_Array (Num (real 3)) = Inr 3"
    by (rule new_Array_nat, simp)+
  show ?thesis
    using generateLossLandscape_dimensions[where width = "Num 10" and height = "Num 15"
        and resolution = "Num 5" and rnd = "constant_draws (1 / 2)"]
    unfolding f a by simp
qed

text \<open>
  C5 (as stated) fails: a width and height of 10 at resolution 5 give 2 rows and 2 columns,
  and the call returns a grid instead of failing.
\<close>

theorem generate_small_counterexample:
  "\<not> isl (generateLossLandscape (Num 10) (Num 10) (Num 5) (constant_draws (1 / 2)))"
proof -
  have f: "Math_floor (Num 10 / Num 5) = Num (real 2)" by simp
  have a: "new_Array (Num (real 2)) = Inr 2" by (rule new_Array_nat) simp
  show ?thesis
    unfolding generate_cases f a
    by (simp add: gibbsSmoothingPass_returns initialGrid_nonempty)
qed


section \<open>Gradients and proposed moves\<close>

lemma array_index_nat [simp]: "array_index (Num (real n)) = Some n"
  by (simp add: array_index_def)

lemma row_at_nat: "n < length xs \<Longrightarrow> row_at xs (Num (real n)) = Some (xs ! n)"
  by (simp add: row_at_def)

lemma cell_at_nat: "n < length xs \<Longrightarrow> cell_at xs (Num (real n)) = xs ! n"
  by (simp add: cell_at_def row_at_def)

text \<open>The index clamp of calculateGradient on a side of at least 3 cells.\<close>

lemma gradient_index:
  assumes "3 \<le> n"
  shows "\<exists>k. Math_min (Math_max (Math_floor (Num v)) (Num 1)) (Num (real n) - Num 2) = Num (real k)
             \<and> 1 \<le> k \<and> k + 2 \<le> n"
proof -
  define z where "z = min (max \<lfloor>v\<rfloor> 1) (int n - 2)"
  have z: "1 \<le> z" "z \<le> int n - 2" using assms by (auto simp: z_def)
  have "Math_min (Math_max (Math_floor (Num v)) (Num 1)) (Num (real n) - Num 2) = Num (real_of_int z)"
    by (simp add: z_def)
  moreover have "real_of_int z = real (nat z)" using z by simp
  moreover have "1 \<le> nat z" "nat z + 2 \<le> n" using z by auto
  ultimately show ?thesis by metis
qed

lemma calculateGradient_wf:
  assumes g: "rectangular rows cols g" and r: "3 \<le> rows" and c: "3 \<le> cols"
  shows "\<exists>i j. 1 \<le> i \<and> i + 2 \<le> rows \<and> 1 \<le> j \<and> j + 2 \<le> cols
           \<and> calculateGradient g (Num x) (Num y) noiseLevel rnd k
               = Inr \<lparr>grad_dx = noisy ((g ! i ! (j + 1) - g ! i ! (j - 1)) / Num 2)
                                  (boxMullerTransform (rnd k) (rnd (k + 1))) noiseLevel,
                      grad_dy = noisy ((g ! (i + 1) ! j - g ! (i - 1) ! j) / Num 2)
                                  (boxMullerTransform (rnd (k + 2)) (rnd (k + 3))) noiseLevel\<rparr>"
proof -
  obtain row0 rest where g0: "g = row0 # rest"
    using g r by (cases g) (auto simp: rectangular_def)
  have len: "length g = rows" "length row0 = cols"
    using g g0 by (auto simp: rectangular_def)
  obtain i where i: "Math_min (Math_max (Math_floor (Num y)) (Num 1)) (Num (real rows) - Num 2) = Num (real i)"
    "1 \<le> i" "i + 2 \<le> rows" using gradient_index[OF r] by blast
  obtain j where j: "Math_min (Math_max (Math_floor (Num x)) (Num 1)) (Num (real cols) - Num 2) = Num (real j)"
    "1 \<le> j" "j + 2 \<le> cols" using gradient_index[OF c] by blast
  have rl: "length (g ! i) = cols" "length (g ! (i + 1)) = cols" "length (g ! (i - 1)) = cols"
    using g i by (simp_all add: rectangular_def)
  have ip: "Num (real i) + Num 1 = Num (real (i + 1))" "Num (real i) - Num 1 = Num (real (i - 1))"
    "Num (real j) + Num 1 = Num (real (j + 1))" "Num (real j) - Num 1 = Num (real (j - 1))"
    using i j by (simp_all add: of_nat_diff)
  have rows_at: "row_at g (Num (real i)) = Some (g ! i)" "row_at g (Num (real (i + 1))) = Some (g ! (i + 1))"
    "row_at g (Num (real (i - 1))) = Some (g ! (i - 1))"
    by (rule row_at_nat, use i len in simp)+
  have cells: "cell_at (g ! i) (Num (real (j + 1))) = g ! i ! (j + 1)"
    "cell_at (g ! i) (Num (real (j - 1))) = g ! i ! (j - 1)"
    "cell_at (g ! (i + 1)) (Num (real j)) = g ! (i + 1) ! j"
    "cell_at (g ! (i - 1)) (Num (real j)) = g ! (i - 1) ! j"
    by (rule cell_at_nat, use j rl in simp)+
  have "calculateGradient g (Num x) (Num y) noiseLevel rnd k
               = Inr \<lparr>grad_dx = noisy ((g ! i ! (j + 1) - g ! i ! (j - 1)) / Num 2)
                                  (boxMullerTransform (rnd k) (rnd (k + 1))) noiseLevel,
                      grad_dy = noisy ((g ! (i + 1) ! j - g ! (i - 1) ! j) / Num 2)
                                  (boxMullerTransform (rnd (k + 2)) (rnd (k + 3))) noiseLevel\<rparr>"
    unfolding calculateGradient_def g0 list.case Let_def
    unfolding g0[symmetric] len i j ip rows_at option.case cells noisy_def
    by simp
  then show ?thesis using i j by blast
qed

lemma noisy_finite: "isFinite d \<Longrightarrow> isFinite z \<Longrightarrow> isFinite nl \<Longrightarrow> isFinite (noisy d z nl)"
  by (simp add: noisy_def isFinite_intros)

lemma boxMuller_isFinite: "0 < u \<Longrightarrow> u \<le> 1 \<Longrightarrow> isFinite (boxMullerTransform u v)"
  by (simp add: boxMuller_finite)

lemma step_draws_positive:
  assumes "step_draws rnd"
  shows "0 < rnd 0" "0 < rnd 2" "0 < rnd 4" "0 < rnd 6" "rnd k \<le> 1"
proof -
  have u: "0 \<le> rnd k" "rnd k < 1" for k
    using assms by (simp_all add: step_draws_def uniform_draws_def)
  have "rnd 0 \<noteq> 0" "rnd 2 \<noteq> 0" "rnd 4 \<noteq> 0" "rnd 6 \<noteq> 0"
    using assms by (simp_all add: step_draws_def)
  then show "0 < rnd 0" "0 < rnd 2" "0 < rnd 4" "0 < rnd 6"
    using u(1)[of 0] u(1)[of 2] u(1)[of 4] u(1)[of 6] by simp_all
  show "rnd k \<le> 1" using u(2)[of k] by simp
qed

lemma loss_draws_positive:
  assumes "loss_draws rnd"
  shows "0 < rnd 0" "0 < rnd 2" "rnd k \<le> 1"
proof -
  have u: "0 \<le> rnd k" "rnd k < 1" for k
    using assms by (simp_all add: loss_draws_def uniform_draws_def)
  have "rnd 0 \<noteq> 0" "rnd 2 \<noteq> 0"
    using assms by (simp_all add: loss_draws_def)
  then show "0 < rnd 0" "0 < rnd 2"
    using u(1)[of 0] u(1)[of 2] by simp_all
  show "rnd k \<le> 1" using u(2)[of k] by simp
qed

lemma finite_grid_nth:
  assumes "finite_grid g" "rectangular rows cols g" "i < rows" "j < cols"
  shows "isFinite (g ! i ! j)"
proof -
  have "g ! i \<in> set g" "length (g ! i) = cols" using assms by (simp_all add: rectangular_def)
  then have "g ! i ! j \<in> set (g ! i)" "\<forall>v \<in> set (g ! i). isFinite v"
    using assms by (simp_all add: finite_grid_def)
  then show ?thesis by simp
qed

lemma calculateGradient_finite:
  assumes g: "rectangular rows cols g" "3 \<le> rows" "3 \<le> cols" and f: "finite_grid g"
    and n: "isFinite noiseLevel"
    and d: "0 < rnd k" "rnd k \<le> 1" "0 < rnd (k + 2)" "rnd (k + 2) \<le> 1"
  shows "\<exists>gx gy. calculateGradient g (Num x) (Num y) noiseLevel rnd k
                   = Inr \<lparr>grad_dx = Num gx, grad_dy = Num gy\<rparr>"
proof -
  obtain i j where ij: "1 \<le> i" "i + 2 \<le> rows" "1 \<le> j" "j + 2 \<le> cols"
    and eq: "calculateGradient g (Num x) (Num y) noiseLevel rnd k
               = Inr \<lparr>grad_dx = noisy ((g ! i ! (j + 1) - g ! i ! (j - 1)) / Num 2)
                                  (boxMullerTransform (rnd k) (rnd (k + 1))) noiseLevel,
                      grad_dy = noisy ((g ! (i + 1) ! j - g ! (i - 1) ! j) / Num 2)
                                  (boxMullerTransform (rnd (k + 2)) (rnd (k + 3))) noiseLevel\<rparr>"
    using calculateGradient_wf[OF g] by blast
  have z: "isFinite (boxMullerTransform (rnd k) (rnd (k + 1)))"
    "isFinite (boxMullerTransform (rnd (k + 2)) (rnd (k + 3)))"
    by (rule boxMuller_isFinite[OF d(1,2)], rule boxMuller_isFinite[OF d(3,4)])
  have c: "isFinite (g ! i ! (j + 1))" "isFinite (g ! i ! (j - 1))"
    "isFinite (g ! (i + 1) ! j)" "isFinite (g ! (i - 1) ! j)"
    by (rule finite_grid_nth[OF f g(1)], use ij in simp, use ij in simp)+
  have "isFinite (noisy ((g ! i ! (j + 1) - g ! i ! (j - 1)) / Num 2)
                                  (boxMullerTransform (rnd k) (rnd (k + 1))) noiseLevel)"
    "isFinite (noisy ((g ! (i + 1) ! j - g ! (i - 1) ! j) / Num 2)
                                  (boxMullerTransform (rnd (k + 2)) (rnd (k + 3))) noiseLevel)"
    using z c n by (auto intro!: noisy_finite isFinite_intros)
  then show ?thesis unfolding eq by (auto simp: isFinite_iff)
qed

lemma sumsq_not_neg [simp]: "\<not> a * a + b * b < (0::real)"
  by (simp add: not_less)

lemma scale_finite:
  assumes "0 < c"
  shows "Num k * Num s / (Num c + Num (sqrt (a * a + b * b))) = Num (k * s / (c + sqrt (a * a + b * b)))"
proof -
  have "0 \<le> sqrt (a * a + b * b)" by simp
  then have "c + sqrt (a * a + b * b) \<noteq> 0" using assms by linarith
  then show ?thesis by simp
qed

lemma den_nonzero: "0 < c \<Longrightarrow> Num c + Math_sqrt (Num a * Num a + Num b * Num b) \<noteq> Num 0"
proof -
  assume "0 < c"
  moreover have "0 \<le> sqrt (a * a + b * b)" by simp
  ultimately have "c + sqrt (a * a + b * b) \<noteq> 0" by linarith
  then show ?thesis by simp
qed

lemma scale_isFinite:
  assumes "isFinite s" "0 < c"
  shows "isFinite (Num k * s / (Num c + Math_sqrt (Num a * Num a + Num b * Num b)))"
proof -
  obtain r where r: "s = Num r" using assms(1) by (auto simp: isFinite_iff)
  have "0 \<le> sqrt (a * a + b * b)" by simp
  then have "c + sqrt (a * a + b * b) \<noteq> 0" using assms(2) by linarith
  then show ?thesis by (simp add: r)
qed

lemma proposedMoves_wf:
  assumes g: "rectangular rows cols g" "3 \<le> rows" "3 \<le> cols" and f: "finite_grid g"
    and p: "finite_position defender" "finite_position adversary"
    and s: "isFinite defenseStrength" "isFinite attackStrength"
    and d: "step_draws rnd"
  shows "\<exists>dnl anl gx gy hx hy sd sa.
           isFinite dnl \<and> isFinite anl
         \<and> calculateGradient g (pos_x defender) (pos_y defender) dnl rnd 0
             = Inr \<lparr>grad_dx = Num gx, grad_dy = Num gy\<rparr>
         \<and> calculateGradient g (pos_x adversary) (pos_y adversary) anl rnd 4
             = Inr \<lparr>grad_dx = Num hx, grad_dy = Num hy\<rparr>
         \<and> proposedMoves defender adversary g defenseStrength attackStrength rnd
             = Inr ((Num (- gx * sd), Num (- gy * sd)), (Num (hx * sa), Num (hy * sa)))
         \<and> (\<forall>a. attackStrength = Num a \<longrightarrow>
               (\<exists>k c. 0 < k \<and> k \<le> 0.025 \<and> 0 < c \<and> sa = k * a / (c + sqrt (hx * hx + hy * hy))))"
proof -
  define ratio where "ratio = attackStrength / defenseStrength"
  define anl where "anl = (if ratio > Num 1 then Num 0.04 else Num 0.08)"
  define dnl where "dnl = (if ratio > Num 1 then Num 0.08 else Num 0.05)"
  have nl: "isFinite dnl" "isFinite anl" by (simp_all add: dnl_def anl_def)
  obtain dx dy ax ay where pos: "pos_x defender = Num dx" "pos_y defender = Num dy"
    "pos_x adversary = Num ax" "pos_y adversary = Num ay"
    using p by (auto simp: finite_position_def isFinite_iff)
  have e: "(0::nat) + 2 = 2" "(4::nat) + 2 = 6" by simp_all
  have d0: "0 < rnd 0" "rnd 0 \<le> 1" "0 < rnd (0 + 2)" "rnd (0 + 2) \<le> 1"
    and d4: "0 < rnd 4" "rnd 4 \<le> 1" "0 < rnd (4 + 2)" "rnd (4 + 2) \<le> 1"
    unfolding e by (rule step_draws_positive[OF d])+
  obtain gx gy where dg: "calculateGradient g (pos_x defender) (pos_y defender) dnl rnd 0
             = Inr \<lparr>grad_dx = Num gx, grad_dy = Num gy\<rparr>"
    unfolding pos using calculateGradient_finite[OF g f nl(1) d0] by blast
  obtain hx hy where ag: "calculateGradient g (pos_x adversary) (pos_y adversary) anl rnd 4
             = Inr \<lparr>grad_dx = Num hx, grad_dy = Num hy\<rparr>"
    unfolding pos using calculateGradient_finite[OF g f nl(2) d4] by blast
  define defScale where
    "defScale = Num 0.02 * defenseStrength / (Num 0.1 + Math_sqrt (Num gx * Num gx + Num gy * Num gy))"
  define advScale where
    "advScale = (if ratio > Num 1
                 then Num 0.025 * attackStrength / (Num 0.05 + Math_sqrt (Num hx * Num hx + Num hy * Num hy))
                 else Num 0.02 * attackStrength / (Num 0.1 + Math_sqrt (Num hx * Num hx + Num hy * Num hy)))"
  have "isFinite defScale"
    unfolding defScale_def by (rule scale_isFinite[OF s(1)]) simp
  moreover have "isFinite advScale"
  proof (cases "ratio > Num 1")
    case True
    show ?thesis
      unfolding advScale_def if_P[OF True] by (rule scale_isFinite[OF s(2)]) simp
  next
    case False
    show ?thesis
      unfolding advScale_def if_not_P[OF False] by (rule scale_isFinite[OF s(2)]) simp
  qed
  ultimately obtain sd sa where sc: "defScale = Num sd" "advScale = Num sa"
    by (auto simp: isFinite_iff)
  have "proposedMoves defender adversary g defenseStrength attackStrength rnd
          = Inr (((- Num gx) * defScale, (- Num gy) * defScale), (Num hx * advScale, Num hy * advScale))"
    unfolding proposedMoves_def Let_def
    unfolding ratio_def[symmetric]
    unfolding anl_def[symmetric] dnl_def[symmetric]
    unfolding dg ag sum.case defScale_def advScale_def
    by simp
  then have pm: "proposedMoves defender adversary g defenseStrength attackStrength rnd
             = Inr ((Num (- gx * sd), Num (- gy * sd)), (Num (hx * sa), Num (hy * sa)))"
    by (simp add: sc)
  have ms: "Math_sqrt (Num hx * Num hx + Num hy * Num hy) = Num (sqrt (hx * hx + hy * hy))"
    by simp
  have form: "\<exists>k c. 0 < k \<and> k \<le> 0.025 \<and> 0 < c \<and> sa = k * a / (c + sqrt (hx * hx + hy * hy))"
    if a: "attackStrength = Num a" for a
  proof (cases "ratio > Num 1")
    case True
    have "advScale = Num (0.025 * a / (0.05 + sqrt (hx * hx + hy * hy)))"
      unfolding advScale_def if_P[OF True] a ms by (rule scale_finite) simp
    then have "sa = 0.025 * a / (0.05 + sqrt (hx * hx + hy * hy))" using sc(2) by simp
    moreover have "(0::real) < 0.025" "(0.025::real) \<le> 0.025" "(0::real) < 0.05" by simp_all
    ultimately show ?thesis by blast
  next
    case False
    have "advScale = Num (0.02 * a / (0.1 + sqrt (hx * hx + hy * hy)))"
      unfolding advScale_def if_not_P[OF False] a ms by (rule scale_finite) simp
    then have "sa = 0.02 * a / (0.1 + sqrt (hx * hx + hy * hy))" using sc(2) by simp
    moreover have "(0::real) < 0.02" "(0.02::real) \<le> 0.025" "(0::real) < 0.1" by simp_all
    ultimately show ?thesis by blast
  qed
  show ?thesis using nl dg ag pm form by blast
qed

text \<open>
  The adversary's proposal is shorter than \<open>0.025 * attackStrength\<close>, whatever the gradient:
  its length is that of the gradient times the scale \<open>k * attackStrength / (c + length)\<close>.
\<close>

lemma scaled_norm:
  assumes "0 < k" "0 < c" "0 \<le> a"
  shows "sqrt ((hx * (k * a / (c + sqrt (hx * hx + hy * hy)))) * (hx * (k * a / (c + sqrt (hx * hx + hy * hy))))
             + (hy * (k * a / (c + sqrt (hx * hx + hy * hy)))) * (hy * (k * a / (c + sqrt (hx * hx + hy * hy)))))
           \<le> k * a"
proof -
  define n where "n = sqrt (hx * hx + hy * hy)"
  define q where "q = k * a / (c + n)"
  have n0: "0 \<le> n" by (simp add: n_def)
  have q0: "0 \<le> q" using assms n0 by (simp add: q_def)
  have nn: "n * n = hx * hx + hy * hy" unfolding n_def by (simp add: real_sqrt_mult_self)
  have "(hx * q) * (hx * q) + (hy * q) * (hy * q) = (hx * hx + hy * hy) * (q * q)"
    by (simp add: algebra_simps)
  also have "\<dots> = (n * q) * (n * q)" by (simp add: nn[symmetric] algebra_simps)
  finally have "sqrt ((hx * q) * (hx * q) + (hy * q) * (hy * q)) = sqrt ((n * q) * (n * q))" by simp
  also have "\<dots> = n * q"
  proof -
    have sq: "sqrt (t * t) = t" if "0 \<le> t" for t :: real using that by simp
    show ?thesis by (rule sq) (use n0 q0 in simp)
  qed
  also have "\<dots> = k * a * (n / (c + n))" by (simp add: q_def)
  also have "\<dots> \<le> k * a * 1"
  proof (rule mult_left_mono)
    show "n / (c + n) \<le> 1" using assms(2) n0 by (simp add: field_simps)
    show "0 \<le> k * a" using assms by simp
  qed
  finally show ?thesis unfolding q_def n_def by simp
qed

section \<open>Budget, jump and board clamp\<close>

lemma in_range_Num [simp]: "in_range lo hi (Num r) = (lo \<le> r \<and> r \<le> hi)"
  by (simp add: in_range_def)

lemma boardClamp_Num: "boardClamp (Num v) (Num n) = Num (min (max v 0) (n - 1))"
  by (simp add: boardClamp_def)

lemma boardClamp_in_range:
  assumes "isFinite v" "1 \<le> n"
  shows "in_range 0 (real n - 1) (boardClamp v (Num (real n)))"
  using assms by (auto simp: isFinite_iff boardClamp_Num)

lemma budgetedMove_Num:
  assumes "0 \<le> m"
  shows "budgetedMove (Num ax) (Num ay) (Num m)
           = (Num (fst (budgeted ax ay m)), Num (snd (budgeted ax ay m)))"
proof (cases "sqrt (ax * ax + ay * ay) > m")
  case True
  define n where "n = sqrt (ax * ax + ay * ay)"
  have n: "n \<noteq> 0" "m < n" using True assms by (auto simp: n_def)
  have "budgetedMove (Num ax) (Num ay) (Num m) = (Num (ax * (m / n)), Num (ay * (m / n)))"
    using n by (simp add: budgetedMove_def Let_def n_def[symmetric])
  then show ?thesis using n by (simp add: budgeted_def n_def[symmetric])
next
  case False
  then show ?thesis by (simp add: budgetedMove_def budgeted_def Let_def)
qed


lemma maxPerturbation_Num:
  "maxPerturbation (Num a) ds
     = Num (0.2 * a * (if Num a / ds > Num 1 then 1.2 else 1))"
  by (simp add: maxPerturbation_def)

lemma targetedJump_Num:
  assumes "finite_position defender" "finite_position adversary" "0 \<le> m"
  shows "\<exists>jx jy. (case targetedJump defender adversary (Num m) of Some j \<Rightarrow> j | None \<Rightarrow> (Num 0, Num 0))
                   = (Num jx, Num jy) \<and> sqrt (jx * jx + jy * jy) \<le> 0.15 * m"
proof -
  obtain dx dy ax ay where pos: "pos_x defender = Num dx" "pos_y defender = Num dy"
    "pos_x adversary = Num ax" "pos_y adversary = Num ay"
    using assms by (auto simp: finite_position_def isFinite_iff)
  define X where "X = dx - ax"
  define Y where "Y = dy - ay"
  define n where "n = sqrt (X * X + Y * Y)"
  have d: "pos_x defender - pos_x adversary = Num X" "pos_y defender - pos_y adversary = Num Y"
    by (simp_all add: pos X_def Y_def)
  have mag: "Math_sqrt (Num X * Num X + Num Y * Num Y) = Num n"
    by (simp add: n_def)
  show ?thesis
  proof (cases "n > 0")
    case True
    have nn: "n * n = X * X + Y * Y" unfolding n_def by (simp add: real_sqrt_mult_self)
    have tj: "targetedJump defender adversary (Num m)
            = Some (Num (X / n * 0.15 * m), Num (Y / n * 0.15 * m))"
      unfolding targetedJump_def Let_def d mag using True by simp
    have "(X * k) * (X * k) + (Y * k) * (Y * k) = (X * X + Y * Y) * (k * k)" for k :: real
      by (simp add: algebra_simps)
    from this[of "0.15 * m / n"]
    have "(X / n * 0.15 * m) * (X / n * 0.15 * m) + (Y / n * 0.15 * m) * (Y / n * 0.15 * m)
            = (n * n) * ((0.15 * m / n) * (0.15 * m / n))"
      by (simp add: nn)
    also have "\<dots> = (0.15 * m) * (0.15 * m)" using True by simp
    finally have "sqrt ((X / n * 0.15 * m) * (X / n * 0.15 * m) + (Y / n * 0.15 * m) * (Y / n * 0.15 * m))
                    = sqrt ((0.15 * m) * (0.15 * m))" by simp
    also have "\<dots> = 0.15 * m"
    proof -
      have sq: "sqrt (q * q) = q" if "0 \<le> q" for q :: real using that by simp
      show ?thesis by (rule sq) (use assms(3) in simp)
    qed
    finally show ?thesis unfolding tj by auto
  next
    case False
    then have "targetedJump defender adversary (Num m) = None"
      unfolding targetedJump_def Let_def d mag by simp
    then show ?thesis using assms(3) by simp
  qed
qed

lemma jumpTerm_Num:
  assumes "finite_position defender" "finite_position adversary" "0 \<le> a"
  shows "\<exists>jx jy. jumpTerm defender adversary ds (Num a) rnd = (Num jx, Num jy)
           \<and> sqrt (jx * jx + jy * jy) \<le> 0.15 * (0.2 * a * (if Num a / ds > Num 1 then 1.2 else 1))"
proof -
  define m where "m = 0.2 * a * (if Num a / ds > Num 1 then 1.2 else 1)"
  have m: "0 \<le> m" using assms(3) by (simp add: m_def)
  have mp: "maxPerturbation (Num a) ds = Num m" by (simp add: maxPerturbation_Num m_def)
  show ?thesis
    using targetedJump_Num[OF assms(1,2) m] m
    unfolding jumpTerm_def mp m_def[symmetric] by auto
qed

lemma add_zero_jsnum [simp]: "v + Num 0 = v"
  by (cases v) simp_all

lemma simulateStep_eq:
  assumes "proposedMoves defender adversary (row0 # rest) defenseStrength attackStrength rnd
             = Inr ((ddx, ddy), (adx, ady))"
  shows "simulateStep defender adversary (row0 # rest) defenseStrength attackStrength rnd
       = Inr \<lparr>res_defender =
                \<lparr>pos_x = boardClamp (pos_x defender + ddx) (Num (real (length row0))),
                 pos_y = boardClamp (pos_y defender + ddy) (Num (real (length (row0 # rest))))\<rparr>,
              res_adversary =
                \<lparr>pos_x = boardClamp (pos_x adversary
                            + fst (budgetedMove adx ady (maxPerturbation attackStrength defenseStrength))
                            + fst (jumpTerm defender adversary defenseStrength attackStrength rnd))
                          (Num (real (length row0))),
                 pos_y = boardClamp (pos_y adversary
                            + snd (budgetedMove adx ady (maxPerturbation attackStrength defenseStrength))
                            + snd (jumpTerm defender adversary defenseStrength attackStrength rnd))
                          (Num (real (length (row0 # rest))))\<rparr>\<rparr>"
  unfolding simulateStep_def assms jumpTerm_def
  by (auto simp: Let_def split: prod.splits option.splits)


lemma budgeted_within: "sqrt (ax * ax + ay * ay) \<le> m \<Longrightarrow> budgeted ax ay m = (ax, ay)"
  by (simp add: budgeted_def)

section \<open>One simulation step\<close>

lemma simulateStep_wf:
  assumes g: "rectangular rows cols grid" "3 \<le> rows" "3 \<le> cols" and f: "finite_grid grid"
    and p: "finite_position defender" "finite_position adversary"
    and s: "isFinite defenseStrength" "attackStrength = Num a" "0 \<le> a"
    and d: "step_draws rnd"
  shows "\<exists>dmove adx ady bx by jx jy m r.
     proposedMoves defender adversary grid defenseStrength attackStrength rnd
       = Inr (dmove, (Num adx, Num ady))
   \<and> isFinite (fst dmove) \<and> isFinite (snd dmove)
   \<and> maxPerturbation attackStrength defenseStrength = Num m
   \<and> m = 0.2 * a * (if attackStrength / defenseStrength > Num 1 then 1.2 else 1)
   \<and> budgetedMove (Num adx) (Num ady) (Num m) = (Num bx, Num by)
   \<and> (bx, by) = budgeted adx ady m
   \<and> jumpTerm defender adversary defenseStrength attackStrength rnd = (Num jx, Num jy)
   \<and> sqrt (jx * jx + jy * jy) \<le> 0.15 * m
   \<and> simulateStep defender adversary grid defenseStrength attackStrength rnd = Inr r
   \<and> res_defender r = \<lparr>pos_x = boardClamp (pos_x defender + fst dmove) (Num (real cols)),
                        pos_y = boardClamp (pos_y defender + snd dmove) (Num (real rows))\<rparr>
   \<and> res_adversary r = \<lparr>pos_x = boardClamp (pos_x adversary + Num bx + Num jx) (Num (real cols)),
                         pos_y = boardClamp (pos_y adversary + Num by + Num jy) (Num (real rows))\<rparr>"
proof -
  obtain row0 rest where g0: "grid = row0 # rest"
    using g by (cases grid) (auto simp: rectangular_def)
  have len: "length (row0 # rest) = rows" "length row0 = cols"
    using g g0 by (auto simp: rectangular_def)
  have sa: "isFinite attackStrength" using s by simp
  obtain gx gy hx hy sd sa where pm:
    "proposedMoves defender adversary grid defenseStrength attackStrength rnd
             = Inr ((Num (- gx * sd), Num (- gy * sd)), (Num (hx * sa), Num (hy * sa)))"
    using proposedMoves_wf[OF g f p s(1) sa d] by blast
  define m where "m = 0.2 * a * (if attackStrength / defenseStrength > Num 1 then 1.2 else 1)"
  have m: "0 \<le> m" using s(3) by (simp add: m_def)
  have mp: "maxPerturbation attackStrength defenseStrength = Num m"
    unfolding s(2) m_def by (rule maxPerturbation_Num)
  obtain jx jy where j: "jumpTerm defender adversary defenseStrength attackStrength rnd = (Num jx, Num jy)"
    "sqrt (jx * jx + jy * jy) \<le> 0.15 * m"
    using jumpTerm_Num[OF p s(3), of defenseStrength rnd] unfolding s(2)[symmetric] m_def by blast
  define dmove where "dmove = (Num (- gx * sd), Num (- gy * sd))"
  define bx where "bx = fst (budgeted (hx * sa) (hy * sa) m)"
  define "by" where "by = snd (budgeted (hx * sa) (hy * sa) m)"
  define r where "r = \<lparr>res_defender =
                \<lparr>pos_x = boardClamp (pos_x defender + fst dmove) (Num (real cols)),
                 pos_y = boardClamp (pos_y defender + snd dmove) (Num (real rows))\<rparr>,
              res_adversary =
                \<lparr>pos_x = boardClamp (pos_x adversary + Num bx + Num jx) (Num (real cols)),
                 pos_y = boardClamp (pos_y adversary + Num by + Num jy) (Num (real rows))\<rparr>\<rparr>"
  have 1: "proposedMoves defender adversary grid defenseStrength attackStrength rnd
             = Inr (dmove, (Num (hx * sa), Num (hy * sa)))"
    using pm by (simp add: dmove_def)
  have 2: "isFinite (fst dmove)" "isFinite (snd dmove)" by (simp_all add: dmove_def)
  have 3: "budgetedMove (Num (hx * sa)) (Num (hy * sa)) (Num m) = (Num bx, Num by)"
    unfolding bx_def by_def by (rule budgetedMove_Num[OF m])
  have 4: "(bx, by) = budgeted (hx * sa) (hy * sa) m" by (simp add: bx_def by_def)
  have 5: "simulateStep defender adversary grid defenseStrength attackStrength rnd = Inr r"
    using simulateStep_eq[OF pm[unfolded g0]] g(1)
    unfolding g0[symmetric] len mp 3 j r_def dmove_def by (simp add: rectangular_def)
  have 6: "res_defender r = \<lparr>pos_x = boardClamp (pos_x defender + fst dmove) (Num (real cols)),
                        pos_y = boardClamp (pos_y defender + snd dmove) (Num (real rows))\<rparr>"
    "res_adversary r = \<lparr>pos_x = boardClamp (pos_x adversary + Num bx + Num jx) (Num (real cols)),
                         pos_y = boardClamp (pos_y adversary + Num by + Num jy) (Num (real rows))\<rparr>"
    by (simp_all add: r_def)
  show ?thesis
    using 1 2 mp m_def 3 4 j 5 6 by blast
qed

lemma position_plus_finite:
  "finite_position p \<Longrightarrow> isFinite (pos_x p + Num a)" "finite_position p \<Longrightarrow> isFinite (pos_y p + Num a)"
  by (simp_all add: finite_position_def isFinite_intros)


lemma wf_bump: "finite_grid bump_grid" "finite_position origin" "step_draws (constant_draws (1 / 2))"
  by (simp_all add: finite_grid_def bump_grid_def finite_position_def origin_def step_draws_def
      uniform_draws_def constant_draws_def)


lemma wf_unit_bump:
  "unit_grid bump_grid" "moderate_position origin" "moderate (Num 5)" "strength (Num 5)"
  by (simp_all add: unit_grid_def bump_grid_def moderate_position_def origin_def moderate_def
      moderate_real_def strength_def)

text \<open>
  C2 (as the code has it). On a rectangular grid of at least 3 rows and 3 columns of cells in
  \<open>[0, 1]\<close>, with positions and strengths of moderate size, an attack strength that is not
  negative, and draws of \<^verbatim>\<open>Math.random()\<close> of which none of the four whose logarithm is
  taken is 0, \<^verbatim>\<open>simulateStep\<close> returns, and both positions it returns lie within
  \<open>[0, cols - 1] \<times> [0, rows - 1]\<close>.
\<close>

theorem simulateStep_on_board:
  assumes "rectangular rows cols grid" "3 \<le> rows" "3 \<le> cols" "unit_grid grid"
    and "moderate_position defender" "moderate_position adversary"
    and "moderate defenseStrength" "moderate attackStrength" "Num 0 \<le> attackStrength"
    and "step_draws rnd"
  shows "\<exists>r. simulateStep defender adversary grid defenseStrength attackStrength rnd = Inr r
           \<and> on_board rows cols (res_defender r) \<and> on_board rows cols (res_adversary r)"
proof -
  obtain a where a: "attackStrength = Num a" "0 \<le> a"
    using assms(8,9) by (cases attackStrength) (simp_all add: moderate_def)
  have p: "finite_position defender" "finite_position adversary"
    using assms(5,6) by (simp_all add: moderate_position_finite)
  obtain dmove bx "by" jx jy r where
    r: "simulateStep defender adversary grid defenseStrength attackStrength rnd = Inr r"
    and fd: "isFinite (fst dmove)" "isFinite (snd dmove)"
    and rd: "res_defender r = \<lparr>pos_x = boardClamp (pos_x defender + fst dmove) (Num (real cols)),
                        pos_y = boardClamp (pos_y defender + snd dmove) (Num (real rows))\<rparr>"
    and ra: "res_adversary r = \<lparr>pos_x = boardClamp (pos_x adversary + Num bx + Num jx) (Num (real cols)),
                         pos_y = boardClamp (pos_y adversary + Num by + Num jy) (Num (real rows))\<rparr>"
    using simulateStep_wf[OF assms(1,2,3) unit_grid_finite[OF assms(4)] p
        moderate_finite[OF assms(7)] a assms(10)] by blast
  have n: "1 \<le> rows" "1 \<le> cols" using assms(2,3) by simp_all
  have "on_board rows cols (res_defender r)"
    unfolding rd on_board_def using p(1) fd n
    by (simp add: boardClamp_in_range isFinite_add finite_position_def)
  moreover have "on_board rows cols (res_adversary r)"
    unfolding ra on_board_def using p(2) n
    by (simp add: boardClamp_in_range isFinite_add finite_position_def)
  ultimately show ?thesis using r by blast
qed

theorem simulateStep_on_board_witness:
  "\<exists>r. simulateStep origin origin bump_grid (Num 5) (Num 5) (constant_draws (1 / 2)) = Inr r
           \<and> on_board 3 4 (res_defender r) \<and> on_board 3 4 (res_adversary r)"
  by (rule simulateStep_on_board[OF rect_bump _ _ wf_unit_bump(1,2,2,3,3) _ wf_bump(3)])
     simp_all

text \<open>
  C2 (as stated) fails on a grid of three rows and one column: the gradient estimate reads
  cells that do not exist, both displacements are NaN, and the positions returned are NaN,
  which the board clamp lets through.
\<close>

theorem simulateStep_narrow_counterexample:
  "simulateStep origin origin [[Num (1 / 2)], [Num (1 / 2)], [Num (1 / 2)]] (Num 5) (Num 5)
      (constant_draws (1 / 2))
   = Inr \<lparr>res_defender = \<lparr>pos_x = NaN, pos_y = NaN\<rparr>, res_adversary = \<lparr>pos_x = NaN, pos_y = NaN\<rparr>\<rparr>"
  by (simp add: simulateStep_def proposedMoves_def calculateGradient_def origin_def Let_def
      row_at_def cell_at_def array_index_def maxPerturbation_def budgetedMove_def boardClamp_def
      NaN_simps)

text \<open>
  On a grid of one row and one column the gradient estimate indexes the row \<open>-1\<close>, and the
  call throws a TypeError instead of returning positions.
\<close>

lemma simulateStep_one_cell:
  "simulateStep origin origin [[Num (1 / 2)]] (Num 5) (Num 5) (constant_draws (1 / 2)) = Inl TypeError"
  by (simp add: simulateStep_def proposedMoves_def calculateGradient_def origin_def Let_def
      row_at_def array_index_def)

section \<open>The perturbation budget\<close>

text \<open>
  In a call of \<^verbatim>\<open>simulateStep\<close> the adversary moves, before the board clamp, by the
  budgeted displacement \<open>(bx, by)\<close> of its proposal \<open>(adx, ady)\<close> plus the jump term
  \<open>(jx, jy)\<close>.
\<close>

lemma simulateStep_adversary_move:
  assumes "rectangular rows cols grid" "3 \<le> rows" "3 \<le> cols" "finite_grid grid"
    and "finite_position defender" "finite_position adversary"
    and "isFinite defenseStrength" "attackStrength = Num a" "0 \<le> a"
    and "step_draws rnd"
  shows "\<exists>dmove adx ady bx by jx jy m r.
     proposedMoves defender adversary grid defenseStrength attackStrength rnd
       = Inr (dmove, (Num adx, Num ady))
   \<and> maxPerturbation attackStrength defenseStrength = Num m
   \<and> budgetedMove (Num adx) (Num ady) (Num m) = (Num bx, Num by)
   \<and> jumpTerm defender adversary defenseStrength attackStrength rnd = (Num jx, Num jy)
   \<and> simulateStep defender adversary grid defenseStrength attackStrength rnd = Inr r
   \<and> res_adversary r = \<lparr>pos_x = boardClamp (pos_x adversary + Num bx + Num jx) (Num (real cols)),
                         pos_y = boardClamp (pos_y adversary + Num by + Num jy) (Num (real rows))\<rparr>"
  using simulateStep_wf[OF assms] by blast

text \<open>
  In such a call the proposal is shorter than \<open>0.025 * attackStrength\<close>, which is within the
  budget: the budget step lets it through as it is.
\<close>

lemma proposal_within_budget:
  assumes g: "rectangular rows cols grid" "3 \<le> rows" "3 \<le> cols" and f: "finite_grid grid"
    and p: "finite_position defender" "finite_position adversary"
    and s: "isFinite defenseStrength" "attackStrength = Num a" "0 \<le> a"
    and d: "step_draws rnd"
  shows "\<exists>dmove adx ady m.
     proposedMoves defender adversary grid defenseStrength attackStrength rnd
       = Inr (dmove, (Num adx, Num ady))
   \<and> maxPerturbation attackStrength defenseStrength = Num m
   \<and> sqrt (adx * adx + ady * ady) \<le> 0.025 * a \<and> 0.025 * a \<le> m
   \<and> budgetedMove (Num adx) (Num ady) (Num m) = (Num adx, Num ady)"
proof -
  have fa: "isFinite attackStrength" using s(2) by simp
  obtain gx gy hx hy sd sa where pm:
    "proposedMoves defender adversary grid defenseStrength attackStrength rnd
             = Inr ((Num (- gx * sd), Num (- gy * sd)), (Num (hx * sa), Num (hy * sa)))"
    and form: "\<forall>a. attackStrength = Num a \<longrightarrow>
               (\<exists>k c. 0 < k \<and> k \<le> 0.025 \<and> 0 < c \<and> sa = k * a / (c + sqrt (hx * hx + hy * hy)))"
    using proposedMoves_wf[OF g f p s(1) fa d] by blast
  obtain k c where kc: "0 < k" "k \<le> 0.025" "0 < c" "sa = k * a / (c + sqrt (hx * hx + hy * hy))"
    using form s(2) by blast
  have "sqrt ((hx * sa) * (hx * sa) + (hy * sa) * (hy * sa)) \<le> k * a"
    unfolding kc(4) by (rule scaled_norm[OF kc(1,3) s(3)])
  moreover have "k * a \<le> 0.025 * a" using kc(2) s(3) by (rule mult_right_mono)
  ultimately have n: "sqrt ((hx * sa) * (hx * sa) + (hy * sa) * (hy * sa)) \<le> 0.025 * a"
    by linarith
  define m where "m = 0.2 * a * (if attackStrength / defenseStrength > Num 1 then 1.2 else 1)"
  have mp: "maxPerturbation attackStrength defenseStrength = Num m"
    unfolding s(2) m_def by (rule maxPerturbation_Num)
  have le: "0.025 * a \<le> m" using s(3) by (simp add: m_def)
  have m0: "0 \<le> m" using s(3) by (simp add: m_def)
  have w: "sqrt ((hx * sa) * (hx * sa) + (hy * sa) * (hy * sa)) \<le> m" using n le by linarith
  have "budgetedMove (Num (hx * sa)) (Num (hy * sa)) (Num m) = (Num (hx * sa), Num (hy * sa))"
    unfolding budgetedMove_Num[OF m0] budgeted_within[OF w] by simp
  then show ?thesis using pm mp n le by blast
qed







section \<open>Flat landscapes\<close>

lemma flat_grid_wf: "rectangular rows cols (flat_grid rows cols c)" "finite_grid (flat_grid rows cols c)"
  by (auto simp: rectangular_def finite_grid_def flat_grid_def)

lemma flat_grid_nth: "i < rows \<Longrightarrow> j < cols \<Longrightarrow> flat_grid rows cols c ! i ! j = Num c"
  by (simp add: flat_grid_def)

lemma noisy_zero: "isFinite z \<Longrightarrow> isFinite nl \<Longrightarrow> noisy (Num 0) z nl = Num 0"
  by (auto simp: noisy_def isFinite_iff)

lemma noisy_noiseless: "noisy d z (Num 0) = d"
  by (simp add: noisy_def)

lemma calculateGradient_flat:
  assumes "3 \<le> rows" "3 \<le> cols"
  shows "calculateGradient (flat_grid rows cols c) (Num x) (Num y) noiseLevel rnd k
           = Inr \<lparr>grad_dx = noisy (Num 0) (boxMullerTransform (rnd k) (rnd (k + 1))) noiseLevel,
                  grad_dy = noisy (Num 0) (boxMullerTransform (rnd (k + 2)) (rnd (k + 3))) noiseLevel\<rparr>"
proof -
  obtain i j where ij: "1 \<le> i" "i + 2 \<le> rows" "1 \<le> j" "j + 2 \<le> cols"
    and eq: "calculateGradient (flat_grid rows cols c) (Num x) (Num y) noiseLevel rnd k
               = Inr \<lparr>grad_dx = noisy ((flat_grid rows cols c ! i ! (j + 1) - flat_grid rows cols c ! i ! (j - 1)) / Num 2)
                                  (boxMullerTransform (rnd k) (rnd (k + 1))) noiseLevel,
                      grad_dy = noisy ((flat_grid rows cols c ! (i + 1) ! j - flat_grid rows cols c ! (i - 1) ! j) / Num 2)
                                  (boxMullerTransform (rnd (k + 2)) (rnd (k + 3))) noiseLevel\<rparr>"
    using calculateGradient_wf[OF flat_grid_wf(1) assms] by blast
  have "flat_grid rows cols c ! i ! (j + 1) = Num c" "flat_grid rows cols c ! i ! (j - 1) = Num c"
    "flat_grid rows cols c ! (i + 1) ! j = Num c" "flat_grid rows cols c ! (i - 1) ! j = Num c"
    by (rule flat_grid_nth, use ij in simp, use ij in simp)+
  then show ?thesis unfolding eq by simp
qed

lemma flat_step_lemma:
  assumes r: "3 \<le> rows" "3 \<le> cols"
    and p: "finite_position defender" "finite_position adversary"
    and s: "isFinite defenseStrength" "isFinite attackStrength"
    and d: "step_draws rnd"
  shows "calculateGradient (flat_grid rows cols c) (Num x) (Num y) (Num 0) rnd k
           = Inr \<lparr>grad_dx = Num 0, grad_dy = Num 0\<rparr>
       \<and> (\<exists>amove r. proposedMoves defender adversary (flat_grid rows cols c) defenseStrength
                       attackStrength rnd = Inr ((Num 0, Num 0), amove)
             \<and> simulateStep defender adversary (flat_grid rows cols c) defenseStrength
                       attackStrength rnd = Inr r
             \<and> res_defender r = \<lparr>pos_x = boardClamp (pos_x defender) (Num (real cols)),
                                  pos_y = boardClamp (pos_y defender) (Num (real rows))\<rparr>)"
proof -
  have 1: "calculateGradient (flat_grid rows cols c) (Num x) (Num y) (Num 0) rnd k
           = Inr \<lparr>grad_dx = Num 0, grad_dy = Num 0\<rparr>"
    unfolding calculateGradient_flat[OF r] by (simp add: noisy_noiseless)
  obtain dnl anl gx gy hx hy sd sa where
    nl: "isFinite dnl"
    and dg: "calculateGradient (flat_grid rows cols c) (pos_x defender) (pos_y defender) dnl rnd 0
             = Inr \<lparr>grad_dx = Num gx, grad_dy = Num gy\<rparr>"
    and pm: "proposedMoves defender adversary (flat_grid rows cols c) defenseStrength attackStrength rnd
             = Inr ((Num (- gx * sd), Num (- gy * sd)), (Num (hx * sa), Num (hy * sa)))"
    using proposedMoves_wf[OF flat_grid_wf(1) r flat_grid_wf(2) p s d] by blast
  obtain dx dy where pos: "pos_x defender = Num dx" "pos_y defender = Num dy"
    using p by (auto simp: finite_position_def isFinite_iff)
  have e: "(0::nat) + 2 = 2" by simp
  have z: "isFinite (boxMullerTransform (rnd 0) (rnd (0 + 1)))"
    "isFinite (boxMullerTransform (rnd (0 + 2)) (rnd (0 + 3)))"
  proof -
    have d2: "0 < rnd (0 + 2)" "rnd (0 + 2) \<le> 1"
      unfolding e by (rule step_draws_positive[OF d])+
    show "isFinite (boxMullerTransform (rnd 0) (rnd (0 + 1)))"
      by (rule boxMuller_isFinite[OF step_draws_positive(1,5)[OF d]])
    show "isFinite (boxMullerTransform (rnd (0 + 2)) (rnd (0 + 3)))"
      by (rule boxMuller_isFinite[OF d2])
  qed
  have "Inr \<lparr>grad_dx = Num gx, grad_dy = Num gy\<rparr> = (Inr \<lparr>grad_dx = Num 0, grad_dy = Num 0\<rparr> :: jserror + gradient)"
    using dg unfolding pos calculateGradient_flat[OF r] noisy_zero[OF z(1) nl] noisy_zero[OF z(2) nl]
    by simp
  then have g0: "gx = 0" "gy = 0" by simp_all
  have pm0: "proposedMoves defender adversary (flat_grid rows cols c) defenseStrength attackStrength rnd
             = Inr ((Num 0, Num 0), (Num (hx * sa), Num (hy * sa)))"
    using pm by (simp add: g0)
  obtain row0 rest where fg: "flat_grid rows cols c = row0 # rest"
    using r(1) by (cases "flat_grid rows cols c") (auto simp: flat_grid_def)
  have len: "length (row0 # rest) = rows" "length row0 = cols"
    using flat_grid_wf(1)[of rows cols c] unfolding fg by (auto simp: rectangular_def)
  note se = simulateStep_eq[OF pm0[unfolded fg], folded fg, unfolded len]
  have lg: "length (flat_grid rows cols c) = rows" by (simp add: flat_grid_def)
  show ?thesis
    using 1 pm0 se by (auto simp: pos lg)
qed

text \<open>
  On a grid of at least 3 by 3 cells that all hold the same number, the gradient without
  noise is \<open>(0, 0)\<close> at every point, and in \<^verbatim>\<open>simulateStep\<close> the defender's displacement
  is \<open>(0, 0)\<close> whenever none of the draws whose logarithm is taken is 0: the defender stays
  where it is, up to the board clamp.
\<close>

lemma flat_grid_no_displacement:
  assumes "3 \<le> rows" "3 \<le> cols"
    and "finite_position defender" "finite_position adversary"
    and "isFinite defenseStrength" "isFinite attackStrength"
    and "step_draws rnd"
  shows "calculateGradient (flat_grid rows cols c) (Num x) (Num y) (Num 0) rnd k
           = Inr \<lparr>grad_dx = Num 0, grad_dy = Num 0\<rparr>
       \<and> (\<exists>amove r. proposedMoves defender adversary (flat_grid rows cols c) defenseStrength
                       attackStrength rnd = Inr ((Num 0, Num 0), amove)
             \<and> simulateStep defender adversary (flat_grid rows cols c) defenseStrength
                       attackStrength rnd = Inr r
             \<and> res_defender r = \<lparr>pos_x = boardClamp (pos_x defender) (Num (real cols)),
                                  pos_y = boardClamp (pos_y defender) (Num (real rows))\<rparr>)"
  using assms by (rule flat_step_lemma)

lemma flat_grid_scenario:
  "\<exists>amove r. proposedMoves scenario_defender scenario_adversary (flat_grid 20 20 (1 / 2))
                       (Num 5) (Num 5) (constant_draws (1 / 2)) = Inr ((Num 0, Num 0), amove)
             \<and> simulateStep scenario_defender scenario_adversary (flat_grid 20 20 (1 / 2))
                       (Num 5) (Num 5) (constant_draws (1 / 2)) = Inr r
             \<and> res_defender r = \<lparr>pos_x = Num 5, pos_y = Num 14\<rparr>"
proof -
  have p: "finite_position scenario_defender" "finite_position scenario_adversary"
    by (simp_all add: finite_position_def scenario_defender_def scenario_adversary_def)
  have c: "boardClamp (pos_x scenario_defender) (Num (real 20)) = Num 5"
    "boardClamp (pos_y scenario_defender) (Num (real 20)) = Num 14"
    by (simp_all add: boardClamp_Num scenario_defender_def)
  show ?thesis
    using flat_grid_no_displacement[where rows = 20 and cols = 20 and c = "1 / 2" and x = 5
        and y = 14 and k = 0, OF _ _ p _ _ wf_bump(3), of "Num 5" "Num 5"]
    unfolding c by simp
qed

lemma flat_zero_draw_step:
  "simulateStep scenario_defender scenario_adversary (flat_grid 20 20 (1 / 2)) (Num 5) (Num 5)
      (constant_draws 0)
   = Inr \<lparr>res_defender = \<lparr>pos_x = NaN, pos_y = NaN\<rparr>, res_adversary = \<lparr>pos_x = NaN, pos_y = NaN\<rparr>\<rparr>"
proof -
  have fg: "flat_grid 20 20 (1 / 2) = replicate 20 (Num (1 / 2)) # replicate 19 (replicate 20 (Num (1 / 2)))"
    by (simp add: flat_grid_def numeral_eq_Suc)
  have g: "calculateGradient (flat_grid 20 20 (1 / 2)) (Num x) (Num y) nl (constant_draws 0) k
           = Inr \<lparr>grad_dx = noisy (Num 0) PosInfinity nl, grad_dy = noisy (Num 0) PosInfinity nl\<rparr>" for x y nl k
    using calculateGradient_flat[of 20 20 "1 / 2" x y nl "constant_draws 0" k]
    by (simp add: constant_draws_def boxMuller_at_zero)
  have pm: "proposedMoves scenario_defender scenario_adversary (flat_grid 20 20 (1 / 2)) (Num 5) (Num 5)
      (constant_draws 0) = Inr ((NaN, NaN), (NaN, NaN))"
    by (simp add: proposedMoves_def Let_def scenario_defender_def scenario_adversary_def g noisy_def
        signed_infinity_def NaN_arith NaN_compare NaN_minmax)
  show ?thesis
    using simulateStep_eq[OF pm[unfolded fg]]
    unfolding fg[symmetric]
    by (simp add: budgetedMove_def Let_def boardClamp_def scenario_defender_def scenario_adversary_def
        jumpTerm_def maxPerturbation_def flat_grid_def NaN_simps)
qed

text \<open>
  C9 (evaluated at the failing draws). On the grid of 20 by 20 cells that all hold 0.5 the
  gradient without noise at \<open>(5, 14)\<close> is \<open>(0, 0)\<close>. But when the draws of
  \<^verbatim>\<open>Math.random()\<close> are 0, the noise sample is infinite, its product with the zero slope
  is NaN, and \<^verbatim>\<open>simulateStep\<close> with the defender at \<open>(5, 14)\<close>, the adversary at \<open>(14, 5)\<close>
  and both strengths 5 returns NaN for the defender's position: its displacement is not
  \<open>(0, 0)\<close>.
\<close>

theorem flat_grid_zero_draw:
  "calculateGradient (flat_grid 20 20 (1 / 2)) (Num 5) (Num 14) (Num 0) (constant_draws 0) 0
     = Inr \<lparr>grad_dx = Num 0, grad_dy = Num 0\<rparr>
 \<and> simulateStep scenario_defender scenario_adversary (flat_grid 20 20 (1 / 2)) (Num 5) (Num 5)
      (constant_draws 0)
     = Inr \<lparr>res_defender = \<lparr>pos_x = NaN, pos_y = NaN\<rparr>, res_adversary = \<lparr>pos_x = NaN, pos_y = NaN\<rparr>\<rparr>"
proof -
  have "calculateGradient (flat_grid 20 20 (1 / 2)) (Num 5) (Num 14) (Num 0) (constant_draws 0) 0
     = Inr \<lparr>grad_dx = Num 0, grad_dy = Num 0\<rparr>"
    unfolding calculateGradient_flat[of 20 20, simplified] by (simp add: noisy_noiseless)
  then show ?thesis using flat_zero_draw_step by simp
qed

section \<open>The dynamic loss\<close>

lemma loss_index:
  assumes "1 \<le> n"
  shows "\<exists>k. Math_min (Math_max (Math_floor (Num v)) (Num 0)) (Num (real n) - Num 1) = Num (real k)
             \<and> k < n"
proof -
  define z where "z = min (max \<lfloor>v\<rfloor> 0) (int n - 1)"
  have z: "0 \<le> z" "z \<le> int n - 1" using assms by (auto simp: z_def)
  have "Math_min (Math_max (Math_floor (Num v)) (Num 0)) (Num (real n) - Num 1) = Num (real_of_int z)"
    by (simp add: z_def)
  moreover have "real_of_int z = real (nat z)" using z by simp
  moreover have "nat z < n" using z assms by auto
  ultimately show ?thesis by metis
qed

lemma strengthAdvantage_Num:
  "d \<noteq> 0 \<Longrightarrow> strengthAdvantage (Num a) (Num d) = Num (max 0 (a / d - 1) * 0.15)"
  by (simp add: strengthAdvantage_def)

lemma clamp_unit_finite: "isFinite v \<Longrightarrow> in_unit (Math_min (Math_max v (Num 0)) (Num 1))"
  by (rule clamp_unit) (auto simp: isFinite_iff)

lemma calculateDynamicLoss_unit_lemma:
  assumes g: "rectangular rows cols grid" "1 \<le> rows" "1 \<le> cols" and f: "finite_grid grid"
    and p: "finite_position defender" "finite_position adversary"
    and i: "isFinite iteration"
    and s: "defenseStrength = Num d" "d \<noteq> 0" "isFinite attackStrength"
    and dr: "loss_draws rnd"
  shows "\<exists>r. calculateDynamicLoss grid defender adversary iteration defenseStrength attackStrength rnd
               = Inr r \<and> in_unit (loss_defender r) \<and> in_unit (loss_adversary r)"
proof -
  obtain row0 rest where g0: "grid = row0 # rest"
    using g by (cases grid) (auto simp: rectangular_def)
  have len: "length grid = rows" "length row0 = cols"
    using g g0 by (auto simp: rectangular_def)
  obtain dx dy ax ay where pos: "pos_x defender = Num dx" "pos_y defender = Num dy"
    "pos_x adversary = Num ax" "pos_y adversary = Num ay"
    using p by (auto simp: finite_position_def isFinite_iff)
  obtain a where a: "attackStrength = Num a" using s(3) by (auto simp: isFinite_iff)
  obtain dr' where dr': "Math_min (Math_max (Math_floor (Num dy)) (Num 0)) (Num (real rows) - Num 1) = Num (real dr')" "dr' < rows"
    using loss_index[OF g(2)] by blast
  obtain dc where dc: "Math_min (Math_max (Math_floor (Num dx)) (Num 0)) (Num (real cols) - Num 1) = Num (real dc)" "dc < cols"
    using loss_index[OF g(3)] by blast
  obtain ar where ar: "Math_min (Math_max (Math_floor (Num ay)) (Num 0)) (Num (real rows) - Num 1) = Num (real ar)" "ar < rows"
    using loss_index[OF g(2)] by blast
  obtain ac where ac: "Math_min (Math_max (Math_floor (Num ax)) (Num 0)) (Num (real cols) - Num 1) = Num (real ac)" "ac < cols"
    using loss_index[OF g(3)] by blast
  have rows_at: "row_at grid (Num (real dr')) = Some (grid ! dr')" "row_at grid (Num (real ar)) = Some (grid ! ar)"
    by (rule row_at_nat, use dr' ar len in simp)+
  have rl: "length (grid ! dr') = cols" "length (grid ! ar) = cols"
    using g dr' ar by (simp_all add: rectangular_def)
  have cells: "cell_at (grid ! dr') (Num (real dc)) = grid ! dr' ! dc"
    "cell_at (grid ! ar) (Num (real ac)) = grid ! ar ! ac"
    by (rule cell_at_nat, use dc ac rl in simp)+
  obtain b c where bc: "grid ! dr' ! dc = Num b" "grid ! ar ! ac = Num c"
    using finite_grid_nth[OF f g(1) dr'(2) dc(2)] finite_grid_nth[OF f g(1) ar(2) ac(2)]
    by (auto simp: isFinite_iff)
  obtain z1 z2 where z: "boxMullerTransform (rnd 0) (rnd 1) = Num z1" "boxMullerTransform (rnd 2) (rnd 3) = Num z2"
    using loss_draws_positive[OF dr] by (simp add: boxMuller_finite)
  obtain it where it: "iteration = Num it" using i by (auto simp: isFinite_iff)
  have cz: "real cols \<noteq> 0" "real rows \<noteq> 0" using g by simp_all
  have adv: "strengthAdvantage attackStrength defenseStrength = Num (max 0 (a / d - 1) * 0.15)"
    unfolding a s(1) by (rule strengthAdvantage_Num[OF s(2)])
  have ratio: "attackStrength / defenseStrength = Num (a / d)"
    using s(2) by (simp add: a s(1))
  define X where "X = (dx - ax) / real cols"
  define Y where "Y = (dy - ay) / real rows"
  have xy: "(Num dx - Num ax) / Num (real cols) = Num X" "(Num dy - Num ay) / Num (real rows) = Num Y"
    using cz by (simp_all add: X_def Y_def)
  have dist: "Math_sqrt (Num X * Num X + Num Y * Num Y) = Num (sqrt (X * X + Y * Y))"
    by simp
  show ?thesis
    unfolding calculateDynamicLoss_def g0 list.case Let_def
    unfolding g0[symmetric] len pos dr' dc ar ac rows_at option.case cells bc z adv ratio it xy dist
    by (auto intro!: clamp_unit_finite isFinite_intros)
qed

text \<open>
  C3 (as the code has it). On a rectangular grid with at least one row and one column of
  cells in \<open>[0, 1]\<close>, with positions, an iteration count and an attack strength of moderate
  size, a defence strength that is positive, and draws of \<^verbatim>\<open>Math.random()\<close> of which
  neither of the two whose logarithm is taken is 0, \<^verbatim>\<open>calculateDynamicLoss\<close> returns, and
  both losses it returns are numbers in \<open>[0, 1]\<close>.
\<close>

theorem calculateDynamicLoss_unit:
  assumes "rectangular rows cols grid" "1 \<le> rows" "1 \<le> cols" "unit_grid grid"
    and "moderate_position defender" "moderate_position adversary"
    and "moderate iteration"
    and "strength defenseStrength" "moderate attackStrength"
    and "loss_draws rnd"
  shows "\<exists>r. calculateDynamicLoss grid defender adversary iteration defenseStrength attackStrength rnd
               = Inr r \<and> in_unit (loss_defender r) \<and> in_unit (loss_adversary r)"
proof -
  obtain d where d: "defenseStrength = Num d" "strength (Num d)"
    using assms(8) by (auto simp: strength_iff)
  have d0: "d \<noteq> 0" using strength_positive[OF d(2)] by simp
  show ?thesis
    by (rule calculateDynamicLoss_unit_lemma[OF assms(1,2,3) unit_grid_finite[OF assms(4)]
          moderate_position_finite[OF assms(5)] moderate_position_finite[OF assms(6)]
          moderate_finite[OF assms(7)] d(1) d0 moderate_finite[OF assms(9)] assms(10)])
qed

lemma loss_draws_half: "loss_draws (constant_draws (1 / 2))"
  by (simp add: loss_draws_def uniform_draws_def constant_draws_def)

theorem calculateDynamicLoss_unit_witness:
  "\<exists>r. calculateDynamicLoss bump_grid origin origin (Num 0) (Num 5) (Num 5) (constant_draws (1 / 2))
               = Inr r \<and> in_unit (loss_defender r) \<and> in_unit (loss_adversary r)"
  by (rule calculateDynamicLoss_unit[OF rect_bump _ _ wf_unit_bump(1,2,2) _ wf_unit_bump(4,3)
        loss_draws_half])
     (simp_all add: moderate_def moderate_real_def)

text \<open>
  C3 (as stated) fails on the grid that is one empty row: the cell read is \<^verbatim>\<open>undefined\<close>,
  the horizontal distance is \<open>0 / 0\<close>, and both losses are NaN, which the final clamp lets
  through.
\<close>

theorem calculateDynamicLoss_empty_row_counterexample:
  "calculateDynamicLoss [[]] origin origin (Num 0) (Num 5) (Num 5) (constant_draws (1 / 2))
   = Inr \<lparr>loss_defender = NaN, loss_adversary = NaN\<rparr>"
  by (simp add: calculateDynamicLoss_def origin_def Let_def
      row_at_def cell_at_def array_index_def strengthAdvantage_def NaN_simps)

text \<open>With a coordinate that is NaN no row is found, and the call throws a TypeError.\<close>

lemma calculateDynamicLoss_NaN_position:
  "calculateDynamicLoss bump_grid \<lparr>pos_x = Num 0, pos_y = NaN\<rparr> origin (Num 0) (Num 5) (Num 5)
      (constant_draws (1 / 2)) = Inl TypeError"
  by (simp add: calculateDynamicLoss_def bump_grid_def origin_def Let_def row_at_def
      array_index_def NaN_minmax)

section \<open>The adjustment for the strengths\<close>












section \<open>What a step writes\<close>

lemma same_except_refl [simp]: "same_except W h h"
  by (simp add: same_except_def)

lemma same_except_trans: "same_except W h h1 \<Longrightarrow> same_except W h1 h2 \<Longrightarrow> same_except W h h2"
  by (simp add: same_except_def)

lemma same_except_update: "r \<in> W \<Longrightarrow> same_except W h (h[r := obj])"
proof -
  assume r: "r \<in> W"
  have "h[r := obj] ! q = h ! q" if "q \<notin> W" for q
  proof -
    have "r \<noteq> q" using r that by blast
    then show ?thesis by simp
  qed
  then show ?thesis by (simp add: same_except_def)
qed

lemma same_except_set:
  "r \<in> W \<Longrightarrow> same_except W h (set_x h r v)" "r \<in> W \<Longrightarrow> same_except W h (set_y h r v)"
  by (simp_all add: set_x_def set_y_def same_except_update split: option.splits)

lemma same_except_set2:
  assumes "same_except W h h1" "r \<in> W"
  shows "same_except W h (set_x h1 r v)" "same_except W h (set_y h1 r v)"
proof -
  show "same_except W h (set_x h1 r v)"
    by (rule same_except_trans[OF assms(1) same_except_set(1)[OF assms(2)]])
  show "same_except W h (set_y h1 r v)"
    by (rule same_except_trans[OF assms(1) same_except_set(2)[OF assms(2)]])
qed

lemma applyBudget_frame:
  assumes "na \<in> W"
  shows "same_except W h (applyBudget h a na advDx advDy m)"
proof (cases "Math_sqrt (advDx * advDx + advDy * advDy) > m")
  case True
  show ?thesis
    unfolding applyBudget_def Let_def if_P[OF True]
    by (rule same_except_set2(2)[OF same_except_set(1)[OF assms] assms])
next
  case False
  show ?thesis
    unfolding applyBudget_def Let_def if_not_P[OF False] by (rule same_except_refl)
qed

lemma applyJump_frame:
  assumes "na \<in> W"
  shows "same_except W h (applyJump h d a na m)"
proof (cases "Math_sqrt ((get_x h d - get_x h a) * (get_x h d - get_x h a)
                 + (get_y h d - get_y h a) * (get_y h d - get_y h a)) > Num 0")
  case True
  show ?thesis
    unfolding applyJump_def Let_def if_P[OF True]
    by (rule same_except_set2(2)[OF same_except_set(1)[OF assms] assms])
next
  case False
  show ?thesis
    unfolding applyJump_def Let_def if_not_P[OF False] by (rule same_except_refl)
qed

lemma clampToBoard_frame:
  assumes "nd \<in> W" "na \<in> W"
  shows "same_except W h (clampToBoard h nd na rows cols)"
  unfolding clampToBoard_def Let_def
  by (rule same_except_set2(2)[OF same_except_set2(1)[OF same_except_set2(2)[OF
        same_except_set(1)[OF assms(1)] assms(1)] assms(2)] assms(2)])

lemma newPositions_eq:
  "\<exists>o1 o2. newPositions h defender adversary defDx defDy advDx advDy
             = (length h, Suc (length h), h @ [o1, o2])"
proof -
  define o1 where "o1 = PositionObj \<lparr>pos_x = get_x h defender + defDx,
                                      pos_y = get_y h defender + defDy\<rparr>"
  define o2 where "o2 = PositionObj \<lparr>pos_x = get_x (h @ [o1]) adversary + advDx,
                                      pos_y = get_y (h @ [o1]) adversary + advDy\<rparr>"
  have "newPositions h defender adversary defDx defDy advDx advDy
             = (length h, Suc (length h), h @ [o1, o2])"
    unfolding newPositions_def alloc_def Let_def prod.case o1_def[symmetric] o2_def[symmetric]
    by simp
  then show ?thesis by (intro exI)
qed

lemma applyJump_frame2:
  "same_except W h h1 \<Longrightarrow> na \<in> W \<Longrightarrow> same_except W h (applyJump h1 d a na m)"
  by (rule same_except_trans[OF _ applyJump_frame])

lemma clampToBoard_frame2:
  "same_except W h h1 \<Longrightarrow> nd \<in> W \<Longrightarrow> na \<in> W
     \<Longrightarrow> same_except W h (clampToBoard h1 nd na rows cols)"
  by (rule same_except_trans[OF _ clampToBoard_frame])

lemma updatePositions_frame:
  assumes "nd \<in> W" "na \<in> W"
  shows "same_except W h (updatePositions h d a nd na advDx advDy ds as rnd rows cols)"
proof (cases "as / ds > Num 1 \<and> Num (rnd 8) < Num 0.08")
  case True
  then show ?thesis
    unfolding updatePositions_def Let_def if_P[OF True]
    by (intro clampToBoard_frame2 applyJump_frame2 applyBudget_frame assms)
next
  case False
  then show ?thesis
    unfolding updatePositions_def Let_def if_not_P[OF False]
    by (intro clampToBoard_frame2 applyBudget_frame assms)
qed

lemma simulateStep_store_cases:
  "(\<exists>e. simulateStep_store h defender adversary grid defenseStrength attackStrength rnd = (h, Inl e))
   \<or> (\<exists>o1 o2 advDx advDy rows cols.
        read_position h defender \<noteq> None \<and> read_position h adversary \<noteq> None
      \<and> read_grid h grid \<noteq> None
      \<and> simulateStep_store h defender adversary grid defenseStrength attackStrength rnd
          = (updatePositions (h @ [o1, o2]) defender adversary (length h) (Suc (length h))
               advDx advDy defenseStrength attackStrength rnd rows cols,
             Inr (length h, Suc (length h))))"
proof (cases "read_position h defender")
  case None
  then show ?thesis by (simp add: simulateStep_store_def)
next
  case d: (Some d)
  show ?thesis
  proof (cases "read_position h adversary")
    case None
    then show ?thesis using d by (simp add: simulateStep_store_def)
  next
    case a: (Some a)
    show ?thesis
    proof (cases "read_grid h grid")
      case None
      then show ?thesis using d a by (simp add: simulateStep_store_def)
    next
      case g: (Some g)
      show ?thesis
      proof (cases "proposedMoves d a g defenseStrength attackStrength rnd")
        case (Inl e)
        then show ?thesis using d a g by (simp add: simulateStep_store_def)
      next
        case (Inr mv)
        obtain defDx defDy advDx advDy where mv: "mv = ((defDx, defDy), (advDx, advDy))"
          by (metis surj_pair)
        show ?thesis
        proof (cases g)
          case Nil
          then show ?thesis using d a g Inr mv by (simp add: simulateStep_store_def)
        next
          case (Cons row0 rest)
          obtain o1 o2 where np: "newPositions h defender adversary defDx defDy advDx advDy
             = (length h, Suc (length h), h @ [o1, o2])"
            using newPositions_eq by blast
          have "simulateStep_store h defender adversary grid defenseStrength attackStrength rnd
                  = (updatePositions (h @ [o1, o2]) defender adversary (length h) (Suc (length h))
                       advDx advDy defenseStrength attackStrength rnd
                       (Num (real (length g))) (Num (real (length row0))),
                     Inr (length h, Suc (length h)))"
            using Inr unfolding simulateStep_store_def d a g mv Cons by (simp add: np)
          then show ?thesis using d a g by blast
        qed
      qed
    qed
  qed
qed

lemma simulateStep_store_frame_lemma:
  assumes "simulateStep_store h defender adversary grid defenseStrength attackStrength rnd = (h', res)"
  shows "unchanged h h'
       \<and> (case res of
             Inl e \<Rightarrow> h' = h
           | Inr (newDefender, newAdversary) \<Rightarrow>
               length h \<le> newDefender \<and> length h \<le> newAdversary \<and> newDefender \<noteq> newAdversary
             \<and> newDefender < length h' \<and> newAdversary < length h')"
  using simulateStep_store_cases[of h defender adversary grid defenseStrength attackStrength rnd]
proof (elim disjE exE)
  fix e
  assume "simulateStep_store h defender adversary grid defenseStrength attackStrength rnd = (h, Inl e)"
  then show ?thesis using assms by (auto simp: unchanged_def)
next
  fix o1 o2 advDx advDy rows cols
  assume "read_position h defender \<noteq> None \<and> read_position h adversary \<noteq> None
      \<and> read_grid h grid \<noteq> None
      \<and> simulateStep_store h defender adversary grid defenseStrength attackStrength rnd
          = (updatePositions (h @ [o1, o2]) defender adversary (length h) (Suc (length h))
               advDx advDy defenseStrength attackStrength rnd rows cols,
             Inr (length h, Suc (length h)))"
  then have h': "h' = updatePositions (h @ [o1, o2]) defender adversary (length h) (Suc (length h))
               advDx advDy defenseStrength attackStrength rnd rows cols"
    and res: "res = Inr (length h, Suc (length h))"
    using assms by simp_all
  have se: "same_except {length h, Suc (length h)} (h @ [o1, o2]) h'"
    unfolding h' by (rule updatePositions_frame) simp_all
  have "h' ! r = h ! r" if "r < length h" for r
  proof -
    have "r \<notin> {length h, Suc (length h)}" using that by simp
    then have "h' ! r = (h @ [o1, o2]) ! r" using se by (simp add: same_except_def)
    then show ?thesis using that by (simp add: nth_append)
  qed
  moreover have "length h' = length h + 2" using se by (simp add: same_except_def)
  ultimately show ?thesis unfolding res by (simp add: unchanged_def)
qed

lemma those_Some_nth: "those xs = Some ys \<Longrightarrow> x \<in> set xs \<Longrightarrow> x \<noteq> None"
  by (induction xs arbitrary: ys) (auto split: option.splits)

lemma read_position_unchanged:
  "unchanged h h' \<Longrightarrow> read_position h r \<noteq> None \<Longrightarrow> read_position h' r = read_position h r"
  by (auto simp: unchanged_def read_position_def split: if_splits)

lemma read_row_unchanged:
  "unchanged h h' \<Longrightarrow> read_row h r \<noteq> None \<Longrightarrow> read_row h' r = read_row h r"
  by (auto simp: unchanged_def read_row_def split: if_splits)

lemma read_grid_unchanged:
  assumes "unchanged h h'" "read_grid h r \<noteq> None"
  shows "read_grid h' r = read_grid h r"
proof -
  have r: "r < length h" using assms(2) by (auto simp: read_grid_def split: if_splits)
  then have eq: "h' ! r = h ! r" "r < length h'" using assms(1) by (auto simp: unchanged_def)
  show ?thesis
  proof (cases "h ! r")
    case (GridObj rs)
    then obtain g where g: "those (map (read_row h) rs) = Some g"
      using assms(2) r by (auto simp: read_grid_def)
    have "read_row h' x = read_row h x" if "x \<in> set rs" for x
    proof -
      have "read_row h x \<in> set (map (read_row h) rs)" using that by simp
      then have "read_row h x \<noteq> None" using those_Some_nth[OF g] by blast
      then show ?thesis by (rule read_row_unchanged[OF assms(1)])
    qed
    then have m: "map (read_row h') rs = map (read_row h) rs" by simp
    have "read_grid h' r = those (map (read_row h') rs)"
      using GridObj r eq by (simp add: read_grid_def)
    also have "\<dots> = read_grid h r"
      unfolding m using GridObj r by (simp add: read_grid_def)
    finally show ?thesis .
  next
    case (PositionObj p)
    then show ?thesis using assms(2) r by (simp add: read_grid_def)
  next
    case (RowObj xs)
    then show ?thesis using assms(2) r by (simp add: read_grid_def)
  qed
qed

lemma simulateStep_store_inputs_lemma:
  assumes "simulateStep_store h defender adversary grid defenseStrength attackStrength rnd = (h', res)"
  shows "unchanged h h'
       \<and> read_position h' defender = read_position h defender
       \<and> read_position h' adversary = read_position h adversary
       \<and> read_grid h' grid = read_grid h grid
       \<and> (case res of
             Inl e \<Rightarrow> h' = h
           | Inr (newDefender, newAdversary) \<Rightarrow>
               length h \<le> newDefender \<and> length h \<le> newAdversary \<and> newDefender \<noteq> newAdversary
             \<and> newDefender < length h' \<and> newAdversary < length h')"
proof -
  note f = simulateStep_store_frame_lemma[OF assms]
  show ?thesis
    using simulateStep_store_cases[of h defender adversary grid defenseStrength attackStrength rnd]
  proof (elim disjE exE conjE)
    fix e
    assume "simulateStep_store h defender adversary grid defenseStrength attackStrength rnd = (h, Inl e)"
    then have "h' = h" using assms by simp
    then show ?thesis using f by simp
  next
    fix o1 o2 advDx advDy rows cols
    assume "read_position h defender \<noteq> None" "read_position h adversary \<noteq> None"
      "read_grid h grid \<noteq> None"
    then show ?thesis
      using f read_position_unchanged read_grid_unchanged by simp
  qed
qed

lemma simulateStep_store_returns:
  assumes "read_position h defender = Some d" "read_position h adversary = Some a"
    and "read_grid h grid = Some (row0 # rest)"
    and "proposedMoves d a (row0 # rest) defenseStrength attackStrength rnd = Inr mv"
  shows "snd (simulateStep_store h defender adversary grid defenseStrength attackStrength rnd)
           = Inr (length h, Suc (length h))"
proof -
  obtain defDx defDy advDx advDy where mv: "mv = ((defDx, defDy), (advDx, advDy))"
    by (metis surj_pair)
  obtain o1 o2 where np: "newPositions h defender adversary defDx defDy advDx advDy
             = (length h, Suc (length h), h @ [o1, o2])"
    using newPositions_eq by blast
  show ?thesis
    using assms(4) unfolding simulateStep_store_def assms(1,2,3) mv by (simp add: np)
qed

lemma scenario_reads:
  "read_position scenario_heap 0 = Some origin" "read_position scenario_heap 1 = Some origin"
  "read_grid scenario_heap 5 = Some bump_grid"
  by (simp_all add: read_position_def read_grid_def read_row_def scenario_heap_def bump_grid_def)

lemma scenario_moves:
  "\<exists>mv. proposedMoves origin origin bump_grid (Num 5) (Num 5) (constant_draws (1 / 2)) = Inr mv"
  using proposedMoves_wf[OF rect_bump _ _ wf_bump(1,2,2) _ _ wf_bump(3), of "Num 5" "Num 5"]
  by auto

lemma scenario_returns:
  "snd (simulateStep_store scenario_heap 0 1 5 (Num 5) (Num 5) (constant_draws (1 / 2))) = Inr (6, 7)"
proof -
  obtain mv where mv: "proposedMoves origin origin bump_grid (Num 5) (Num 5) (constant_draws (1 / 2)) = Inr mv"
    using scenario_moves by blast
  have b: "bump_grid = [Num 0, Num 0, Num 0, Num 0] # [[Num 0, Num 1, Num (1 / 4), Num 0], [Num 0, Num 0, Num 0, Num 0]]"
    by (simp add: bump_grid_def)
  have "length scenario_heap = 6" by (simp add: scenario_heap_def)
  then show ?thesis
    using simulateStep_store_returns[OF scenario_reads(1,2) scenario_reads(3)[unfolded b] mv[unfolded b]]
    by simp
qed

text \<open>
  C10. \<^verbatim>\<open>simulateStep\<close> leaves every object that existed before the call as it was: the two
  position objects and the grid it is given read the same afterwards. When it returns, the
  two positions it returns are two distinct objects made by the call, at addresses that did
  not exist before; when it throws, the store is the one it started from.
\<close>

theorem simulateStep_store_frame:
  assumes "simulateStep_store h defender adversary grid defenseStrength attackStrength rnd = (h', res)"
  shows "unchanged h h'
       \<and> read_position h' defender = read_position h defender
       \<and> read_position h' adversary = read_position h adversary
       \<and> read_grid h' grid = read_grid h grid
       \<and> (case res of
             Inl e \<Rightarrow> h' = h
           | Inr (newDefender, newAdversary) \<Rightarrow>
               length h \<le> newDefender \<and> length h \<le> newAdversary \<and> newDefender \<noteq> newAdversary
             \<and> newDefender < length h' \<and> newAdversary < length h')"
  using assms by (rule simulateStep_store_inputs_lemma)

theorem simulateStep_store_frame_witness:
  "snd (simulateStep_store scenario_heap 0 1 5 (Num 5) (Num 5) (constant_draws (1 / 2))) = Inr (6, 7)
   \<and> unchanged scenario_heap
        (fst (simulateStep_store scenario_heap 0 1 5 (Num 5) (Num 5) (constant_draws (1 / 2))))
   \<and> read_position
        (fst (simulateStep_store scenario_heap 0 1 5 (Num 5) (Num 5) (constant_draws (1 / 2)))) 0
        = Some origin
   \<and> read_position
        (fst (simulateStep_store scenario_heap 0 1 5 (Num 5) (Num 5) (constant_draws (1 / 2)))) 1
        = Some origin
   \<and> read_grid
        (fst (simulateStep_store scenario_heap 0 1 5 (Num 5) (Num 5) (constant_draws (1 / 2)))) 5
        = Some bump_grid"
proof -
  have p: "simulateStep_store scenario_heap 0 1 5 (Num 5) (Num 5) (constant_draws (1 / 2))
             = (fst (simulateStep_store scenario_heap 0 1 5 (Num 5) (Num 5) (constant_draws (1 / 2))),
                snd (simulateStep_store scenario_heap 0 1 5 (Num 5) (Num 5) (constant_draws (1 / 2))))"
    by simp
  show ?thesis
    using simulateStep_store_frame[OF p] scenario_returns scenario_reads by simp
qed

section \<open>The normal generator at the zero draw\<close>

text \<open>
  Downstream of the generator the infinite sample meets the zero slope of a flat landscape:
  the product is \<^verbatim>\<open>NaN\<close>, and so is the gradient estimate.
\<close>

lemma zero_draw_flat_gradient:
  assumes "3 \<le> rows" "3 \<le> cols"
  shows "calculateGradient (flat_grid rows cols c) (Num x) (Num y) (Num (1 / 20)) (constant_draws 0) k
           = Inr \<lparr>grad_dx = NaN, grad_dy = NaN\<rparr>"
  unfolding calculateGradient_flat[OF assms]
  by (simp add: noisy_def constant_draws_def boxMuller_at_zero signed_infinity_def)

text \<open>
  In \<^verbatim>\<open>calculateDynamicLoss\<close> the infinite sample makes both losses infinite before the
  adjustment; with strengths 3 and 23 the advantage is exactly 1, the adversary's loss is
  scaled by 0, and the loss returned is NaN.
\<close>

lemma zero_draw_loss:
  "calculateDynamicLoss bump_grid origin origin (Num 0) (Num 3) (Num 23) (constant_draws 0)
     = Inr \<lparr>loss_defender = Num 1, loss_adversary = NaN\<rparr>"
  by (simp add: calculateDynamicLoss_def bump_grid_def origin_def Let_def row_at_def cell_at_def
      array_index_def strengthAdvantage_def constant_draws_def boxMuller_at_zero
      signed_infinity_def NaN_arith NaN_compare NaN_minmax)

text \<open>
  C7 (evaluated at the failing draw). When the first draw of \<^verbatim>\<open>boxMullerTransform\<close> is
  0, which \<^verbatim>\<open>Math.random()\<close> may return, the logarithm is taken of 0 and the sample is
  positive infinity, not a finite number.
\<close>

theorem boxMuller_zero_draw: "boxMullerTransform 0 0 = PosInfinity"
  by (rule boxMuller_at_zero)

end
